theory Spec2Isabelle
  imports Complex_Main "HOL-Library.AList" "HOL-Library.Sublist" "HOL-Library.Multiset"
    "HOL-Library.Log_Nat"
begin

section \<open>The awk join of step (3): taxonomy lookup and classification\<close>

text \<open>
  The pipeline of \<^verbatim>\<open>bash_script\<close> runs an awk program over \<^verbatim>\<open>hits.txt\<close>. A file is
  modelled as the list of its records (lines without the terminating newline), a string
  as a \<^typ>\<open>char list\<close>. The program sets \<^verbatim>\<open>FS=OFS="\t"\<close> first, so every record is
  split at each tab and \<^verbatim>\<open>print a, b, c\<close> joins its arguments with tabs.
\<close>

abbreviation TAB :: char where
  "TAB \<equiv> CHR 0x09"

text \<open>Splitting at every occurrence of a one-character separator; always at least one piece.\<close>

fun split_at :: "char \<Rightarrow> string \<Rightarrow> string list" where
  "split_at c [] = [[]]"
| "split_at c (x # xs) =
     (if x = c then [] # split_at c xs
      else (case split_at c xs of [] \<Rightarrow> [[x]] | w # ws \<Rightarrow> (x # w) # ws))"

text \<open>
  awk's field splitting and its \<^verbatim>\<open>split(s, a, sep)\<close> for a one-character separator: the
  empty string has no fields (\<^verbatim>\<open>NF = 0\<close>, \<^verbatim>\<open>split\<close> returns 0), any other string one more
  than it has separators.
\<close>

definition awk_split :: "char \<Rightarrow> string \<Rightarrow> string list" where
  "awk_split sep s = (if s = [] then [] else split_at sep s)"

text \<open>
  \<^verbatim>\<open>$i\<close> and \<^verbatim>\<open>a[i]\<close> for \<open>i \<ge> 1\<close>: a field beyond \<^verbatim>\<open>NF\<close> and an array element never
  assigned are the empty string.
\<close>

definition awk_field :: "string list \<Rightarrow> nat \<Rightarrow> string" where
  "awk_field fs i = (if 1 \<le> i \<and> i \<le> length fs then fs ! (i - 1) else [])"

text \<open>\<^verbatim>\<open>print e1, e2, ...\<close> with \<^verbatim>\<open>OFS="\t"\<close>: the output record, without its newline.\<close>

fun awk_print :: "string list \<Rightarrow> string" where
  "awk_print [] = []"
| "awk_print [x] = x"
| "awk_print (x # y # ys) = x @ TAB # awk_print (y # ys)"

text \<open>
  The variables of the awk program. \<^verbatim>\<open>NR\<close> starts at 0 and is advanced only when a
  record of the main input is read; \<^verbatim>\<open>getline < "taxonomy.tsv"\<close> sets \<^verbatim>\<open>$0\<close> and \<^verbatim>\<open>NF\<close>
  and leaves \<^verbatim>\<open>NR\<close> as it is. The \<^verbatim>\<open>BEGIN\<close> block runs before any record of the main
  input, so the loop over the taxonomy never changes \<^verbatim>\<open>NR\<close>.
\<close>

record awk_vars =
  NR :: nat
  header :: string
  tax :: "string \<rightharpoonup> string"

definition awk_start :: awk_vars where
  "awk_start = \<lparr>NR = 0, header = [], tax = Map.empty\<rparr>"

text \<open>
  The \<^verbatim>\<open>BEGIN\<close> block, lines 45-55:
  \<^verbatim>\<open>while ((getline < "taxonomy.tsv") > 0) { if (NR==1) { header = $0; continue }; tax[$1] = $0 }\<close>
  over the records of \<^verbatim>\<open>taxonomy.tsv\<close>.
\<close>

fun awk_begin :: "awk_vars \<Rightarrow> string list \<Rightarrow> awk_vars" where
  "awk_begin v [] = v"
| "awk_begin v (line # rest) =
     (if NR v = 1 then awk_begin (v\<lparr>header := line\<rparr>) rest
      else awk_begin (v\<lparr>tax := (tax v)(awk_field (awk_split TAB line) 1 \<mapsto> line)\<rparr>) rest)"

text \<open>
  The main rule, lines 56-65, on one record of \<^verbatim>\<open>hits.txt\<close>: the record it prints.
\<close>

definition awk_main :: "awk_vars \<Rightarrow> string \<Rightarrow> string" where
  "awk_main v line =
     (let fs = awk_split TAB line;
          parts = awk_split (CHR '':'') (awk_field fs 2);
          tid = awk_field parts 1;
          identity = awk_field fs 3
      in case tax v tid of
           Some row \<Rightarrow> awk_print [awk_field fs 1, identity, row]
         | None \<Rightarrow> awk_print [awk_field fs 1, identity, tid, ''UNKNOWN''])"

text \<open>The whole awk run: \<^verbatim>\<open>classified_full_tmp.tsv\<close> from the two input files.\<close>

definition awk_program :: "string list \<Rightarrow> string list \<Rightarrow> string list" where
  "awk_program taxonomy hits = map (awk_main (awk_begin awk_start taxonomy)) hits"

text \<open>The \<^verbatim>\<open>target\<close> column of a hit, and the third column of a classified record.\<close>

definition target_id :: "string \<Rightarrow> string" where
  "target_id hit = awk_field (awk_split TAB hit) 2"

definition column :: "nat \<Rightarrow> string \<Rightarrow> string" where
  "column i line = (let fs = split_at TAB line in if i < length fs then fs ! i else [])"

definition taxon_identifier :: "string \<Rightarrow> string" where
  "taxon_identifier row = column 2 row"


section \<open>Step (4): the header of \<^verbatim>\<open>classified_full.tsv\<close>\<close>

text \<open>
  \<^verbatim>\<open>$(head -n1 taxonomy.tsv)\<close>: the first record of the file, the empty string for an
  empty file.
\<close>

definition head_n1 :: "string list \<Rightarrow> string" where
  "head_n1 file = (case file of [] \<Rightarrow> [] | l # _ \<Rightarrow> l)"

definition classified_full :: "string list \<Rightarrow> string list \<Rightarrow> string list" where
  "classified_full taxonomy hits =
     (''centroid'' @ TAB # ''identity'' @ TAB # head_n1 taxonomy) # awk_program taxonomy hits"

section \<open>The table read by \<^verbatim>\<open>pd.read_csv(..., sep="\t")\<close>\<close>

text \<open>
  A cell read from the file is a string or missing (\<open>None\<close> is pandas' NaN). A row is
  kept as the association list of its column names and cells, a table as its column
  names and its rows in order.

  \<^verbatim>\<open>read_csv\<close> takes the first record as the column names. A data record with fewer
  fields than expected is filled with NaN on the right. The first data record may have
  more fields than the header: the surplus leading fields become the row index and the
  names label the remaining ones; a later record with more fields than the first one
  raises \<^verbatim>\<open>ParserError\<close>. A field spelled as one of the default \<^verbatim>\<open>na_values\<close> is NaN.
  The index is not kept: nothing reads it, and \<^verbatim>\<open>to_csv(index=False)\<close> does not write it.

  Outside this model: quoted fields (a \<open>"\<close> at the start of a field), carriage returns,
  the renaming of repeated or empty column names, and the conversion of a column whose
  entries all spell numbers or booleans to a numeric dtype (for the species column that
  makes line 89 raise, as the all-missing column does below). Every record of
  \<^verbatim>\<open>classified_full.tsv\<close> holds at least two tabs, so none is skipped as blank.
\<close>

type_synonym cell = "string option"

type_synonym row = "(string \<times> cell) list"

record dataframe =
  columns :: "string list"
  rows :: "row list"

datatype error = EmptyDataError | ParserError | KeyError | AttributeError

definition na_values :: "string list" where
  "na_values =
     [[], ''#N/A'', ''#N/A N/A'', ''#NA'', ''-1.#IND'', ''-1.#QNAN'', ''-NaN'', ''-nan'',
      ''1.#IND'', ''1.#QNAN'', ''<NA>'', ''N/A'', ''NA'', ''NULL'', ''NaN'', ''None'',
      ''n/a'', ''nan'', ''null'']"

definition parse_cell :: "string \<Rightarrow> cell" where
  "parse_cell s = (if s \<in> set na_values then None else Some s)"

definition pad :: "nat \<Rightarrow> cell list \<Rightarrow> cell list" where
  "pad n cs = cs @ replicate (n - length cs) None"

definition parse_row :: "string list \<Rightarrow> nat \<Rightarrow> string \<Rightarrow> row" where
  "parse_row names width line =
     zip names (drop (width - length names) (pad width (map parse_cell (split_at TAB line))))"

definition read_csv :: "string list \<Rightarrow> error + dataframe" where
  "read_csv file =
     (case file of
        [] \<Rightarrow> Inl EmptyDataError
      | h # body \<Rightarrow>
          (let names = split_at TAB h;
               width = (case body of
                          [] \<Rightarrow> length names
                        | r # _ \<Rightarrow> max (length names) (length (split_at TAB r)))
           in if list_ex (\<lambda>r. width < length (split_at TAB r)) body then Inl ParserError
              else Inr \<lparr>columns = names, rows = map (parse_row names width) body\<rparr>))"

text \<open>\<^verbatim>\<open>row[name]\<close>: the cell of a row under a column name (NaN where the row has none).\<close>

definition get :: "row \<Rightarrow> string \<Rightarrow> cell" where
  "get r name = (case map_of r name of Some c \<Rightarrow> c | None \<Rightarrow> None)"

section \<open>Float64 arithmetic\<close>

text \<open>
  pandas holds abundances as float64. A float64 value is kept here as the rational number
  it denotes. \<open>float64 x\<close> rounds a rational to 53 significant bits, ties to even, as
  binary64 arithmetic rounds the exact result of one division or one addition. The
  exponent is not bounded here; binary64 agrees for magnitudes from \<open>2\<^sup>-\<^sup>1\<^sup>0\<^sup>2\<^sup>2\<close> up to
  \<open>2\<^sup>1\<^sup>0\<^sup>2\<^sup>4\<close>, which holds every quotient of two int64 counts and every sum of such
  quotients.
\<close>

text \<open>The exponent of a positive number: the \<open>e\<close> with \<open>2\<^sup>e \<le> x < 2\<^sup>e\<^sup>+\<^sup>1\<close>.\<close>

definition expo :: "rat \<Rightarrow> int" where
  "expo x = (if 1 \<le> x then int (floorlog 2 (nat \<lfloor>x\<rfloor>)) - 1
             else - int (floorlog 2 (nat \<lceil>1 / x\<rceil> - 1)))"

definition round_half_even :: "rat \<Rightarrow> int" where
  "round_half_even y =
     (let f = \<lfloor>y\<rfloor>; r = y - of_int f
      in if r < 1 / 2 then f else if 1 / 2 < r then f + 1 else if even f then f else f + 1)"

definition float64 :: "rat \<Rightarrow> rat" where
  "float64 x =
     (if x = 0 then 0
      else let ulp = 2 powi (expo \<bar>x\<bar> - 52)
           in sgn x * of_int (round_half_even (\<bar>x\<bar> / ulp)) * ulp)"

text \<open>
  \<^verbatim>\<open>int64 / int64\<close> in numpy (true division): both counts are converted to float64 and
  divided in float64.
\<close>

definition true_divide :: "nat \<Rightarrow> nat \<Rightarrow> rat" where
  "true_divide a b = float64 (float64 (of_nat a) / float64 (of_nat b))"

definition fadd :: "rat \<Rightarrow> rat \<Rightarrow> rat" where
  "fadd a b = float64 (a + b)"

text \<open>
  \<^verbatim>\<open>Series.sum()\<close> replaces NaN by 0 and adds the values in float64. In which order it adds
  them is numpy's business (fewer than eight values one after the other, starting from 0;
  longer arrays in blocks of eight running sums that are then added in pairs), and the
  result depends on the order. The order is a parameter here: a plan names the values by
  their positions and says which sums are added. \<open>plan_for n\<close> holds of the plans that add
  each of \<open>n\<close> values once, \<open>depth\<close> is the longest chain of additions, \<open>loop n\<close> is the plan
  of the plain loop.
\<close>

datatype plan = Zero | Value nat | Add plan plan

fun leaves :: "plan \<Rightarrow> nat list" where
  "leaves Zero = []"
| "leaves (Value i) = [i]"
| "leaves (Add p q) = leaves p @ leaves q"

fun depth :: "plan \<Rightarrow> nat" where
  "depth Zero = 0"
| "depth (Value i) = 0"
| "depth (Add p q) = Suc (max (depth p) (depth q))"

fun run_plan :: "rat list \<Rightarrow> plan \<Rightarrow> rat" where
  "run_plan xs Zero = 0"
| "run_plan xs (Value i) = (if i < length xs then xs ! i else 0)"
| "run_plan xs (Add p q) = fadd (run_plan xs p) (run_plan xs q)"

definition plan_for :: "nat \<Rightarrow> plan \<Rightarrow> bool" where
  "plan_for n p = (mset (leaves p) = mset [0..<n])"


definition series_sum :: "plan \<Rightarrow> rat option list \<Rightarrow> rat" where
  "series_sum p col = run_plan (map (\<lambda>c. case c of None \<Rightarrow> 0 | Some x \<Rightarrow> x) col) p"

section \<open>Step 2: abundances\<close>

text \<open>
  \<^verbatim>\<open>.str\<close> is available on a column of strings only. A column read from a file with
  every entry missing is a float column, and \<^verbatim>\<open>.str\<close> raises \<^verbatim>\<open>AttributeError\<close> on it;
  the column of a table without rows is an (empty) object column.
\<close>

definition object_dtype :: "cell list \<Rightarrow> bool" where
  "object_dtype col = (col = [] \<or> list_ex (\<lambda>c. c \<noteq> None) col)"

text \<open>\<^verbatim>\<open>.str.replace(" ", "_", regex=False)\<close> on one cell: NaN stays NaN.\<close>

definition str_replace :: "cell \<Rightarrow> cell" where
  "str_replace c = map_option (map (\<lambda>x. if x = CHR '' '' then CHR ''_'' else x)) c"

text \<open>
  Keeping the first element seen for every key, in the original order: the scan behind
  both \<^verbatim>\<open>value_counts\<close> (the distinct values) and \<^verbatim>\<open>drop_duplicates\<close> (\<open>keep="first"\<close>).
\<close>

fun keep_first :: "('a \<Rightarrow> 'k) \<Rightarrow> 'k list \<Rightarrow> 'a list \<Rightarrow> 'a list" where
  "keep_first key seen [] = []"
| "keep_first key seen (x # xs) =
     (if key x \<in> set seen then keep_first key seen xs
      else x # keep_first key (key x # seen) xs)"

definition unique :: "'a list \<Rightarrow> 'a list" where
  "unique xs = keep_first (\<lambda>x. x) [] xs"

text \<open>
  \<^verbatim>\<open>Series.value_counts()\<close>: NaN is dropped (\<open>dropna=True\<close>), the values are counted and
  the counts sorted in descending order. pandas leaves the order among equal counts
  open; it is the order of first appearance here.
\<close>

definition value_counts :: "cell list \<Rightarrow> (cell \<times> nat) list" where
  "value_counts col =
     (let vals = filter (\<lambda>c. c \<noteq> None) col
      in sort_key (\<lambda>(k, n). - int n) (map (\<lambda>k. (k, count_list vals k)) (unique vals)))"

text \<open>
  With \<^verbatim>\<open>normalize=True\<close> the counts are divided by their sum, in float64. Followed by
  \<^verbatim>\<open>.rename_axis("species_norm").reset_index(name="abundance")\<close>, the result is the
  two-column table of (species_norm, abundance) pairs.
\<close>

definition value_counts_normalize :: "cell list \<Rightarrow> (cell \<times> rat) list" where
  "value_counts_normalize col =
     (let counts = value_counts col;
          total = sum_list (map snd counts)
      in map (\<lambda>(k, n). (k, true_divide n total)) counts)"

text \<open>A row of the table after the merge: the cells read from the file and its abundance.\<close>

record abundance_row =
  cells :: row
  abundance :: "rat option"

text \<open>
  Lines 100-102 on one row: \<^verbatim>\<open>df["species_norm"] = species_norm\<close> sets the cell of that
  column (in place when the column exists, as a new last column otherwise), the left
  merge on \<^verbatim>\<open>species_norm\<close> attaches the abundance of the row's key (NaN when the table
  has no such key; its keys are distinct, so no row is repeated), and the drop removes
  the \<^verbatim>\<open>species_norm\<close> column.
\<close>

definition merge_row :: "(cell \<times> rat) list \<Rightarrow> row \<Rightarrow> abundance_row" where
  "merge_row abundance_table r =
     (let r1 = AList.update ''species_norm'' (str_replace (get r ''species'')) r;
          a = map_of abundance_table (get r1 ''species_norm'')
      in \<lparr>cells = AList.delete ''species_norm'' r1, abundance = a\<rparr>)"

text \<open>
  Lines 89-102. \<^verbatim>\<open>df["species"]\<close> raises \<^verbatim>\<open>KeyError\<close> without that column. When the
  table read from the file already has a column \<^verbatim>\<open>abundance\<close>, the merge names the two
  \<^verbatim>\<open>abundance_x\<close> and \<^verbatim>\<open>abundance_y\<close>, and \<^verbatim>\<open>df["abundance"]\<close> on line 108 raises
  \<^verbatim>\<open>KeyError\<close>.
\<close>

definition compute_abundances :: "dataframe \<Rightarrow> error + (cell \<times> rat) list \<times> abundance_row list" where
  "compute_abundances df =
     (if ''species'' \<notin> set (columns df) then Inl KeyError
      else
        (let species = map (\<lambda>r. get r ''species'') (rows df) in
         if \<not> object_dtype species then Inl AttributeError
         else
           (let species_norm = map str_replace species;
                abundance_table = value_counts_normalize species_norm
            in if ''abundance'' \<in> set (columns df) then Inl KeyError
               else Inr (abundance_table, map (merge_row abundance_table) (rows df)))))"

section \<open>Step 3: one row per species\<close>

text \<open>
  Line 114 reads back the file written on line 106. Cells of the species column come back
  as they were written (a missing cell is written as the empty field and read as NaN
  again), and so do the abundances: a float64 is written in the shortest decimal form
  that reads back as the same float64. So the table is taken as it is.

  \<^verbatim>\<open>df.drop_duplicates(subset=["species"])\<close> keeps the first row of every value of the
  \<^verbatim>\<open>species\<close> column; missing values count as one value.
\<close>

definition drop_duplicates :: "abundance_row list \<Rightarrow> abundance_row list" where
  "drop_duplicates rs = keep_first (\<lambda>r. get (cells r) ''species'') [] rs"

text \<open>What one sample computes: the abundance table and the two tables.\<close>

record sample_output =
  abundance_table :: "(cell \<times> rat) list"
  with_abundance :: "abundance_row list"
  df_clean :: "abundance_row list"

definition process_table :: "dataframe \<Rightarrow> error + sample_output" where
  "process_table df =
     (case compute_abundances df of
        Inl e \<Rightarrow> Inl e
      | Inr (table, merged) \<Rightarrow>
          Inr \<lparr>abundance_table = table,
               with_abundance = merged,
               df_clean = drop_duplicates merged\<rparr>)"

text \<open>
  The two sums the script prints, lines 108 and 124: \<^verbatim>\<open>df["abundance"].sum()\<close> and
  \<^verbatim>\<open>df_clean["abundance"].sum()\<close>, for a plan of the additions.
\<close>

definition abundance_sum :: "plan \<Rightarrow> sample_output \<Rightarrow> rat" where
  "abundance_sum p out = series_sum p (map abundance (with_abundance out))"


definition process_sample :: "string list \<Rightarrow> string list \<Rightarrow> error + sample_output" where
  "process_sample taxonomy hits =
     (case read_csv (classified_full taxonomy hits) of
        Inl e \<Rightarrow> Inl e
      | Inr df \<Rightarrow> process_table df)"

section \<open>Properties of the awk join\<close>

lemma split_at_nonempty: "split_at c s \<noteq> []"
  by (induction s) (auto split: list.splits)

lemma hd_split_at: "hd (split_at c s) = takeWhile (\<lambda>x. x \<noteq> c) s"
  by (induction s) (auto split: list.splits simp: split_at_nonempty)

lemma split_at_append: "c \<notin> set a \<Longrightarrow> split_at c (a @ c # rest) = a # split_at c rest"
  by (induction a) (auto split: list.splits)

lemma split_at_no_sep: "w \<in> set (split_at c s) \<Longrightarrow> c \<notin> set w"
  by (induction s arbitrary: w) (auto split: list.splits if_splits)

lemma split_at_plain: "c \<notin> set s \<Longrightarrow> split_at c s = [s]"
  by (induction s) (auto split: list.splits)

lemma takeWhile_upto_sep: "c \<notin> set a \<Longrightarrow> takeWhile (\<lambda>x. x \<noteq> c) (a @ c # r) = a"
  by (induction a) auto

lemma awk_field_first: "awk_field (awk_split c s) (Suc 0) = takeWhile (\<lambda>x. x \<noteq> c) s"
  using split_at_nonempty[of c s] hd_split_at[of c s]
  by (cases "split_at c s") (auto simp: awk_field_def awk_split_def)

lemma awk_field_no_sep: "c \<notin> set (awk_field (awk_split c s) i)"
  using split_at_no_sep[of _ c s]
  by (auto simp: awk_field_def awk_split_def)

text \<open>The loop of the \<^verbatim>\<open>BEGIN\<close> block never sees \<^verbatim>\<open>NR == 1\<close>.\<close>

lemma awk_begin_NR: "NR (awk_begin v lines) = NR v"
  by (induction v lines rule: awk_begin.induct) auto

text \<open>Every stored record is stored under its own first field.\<close>

lemma awk_begin_keys:
  "(\<And>k row. tax v k = Some row \<Longrightarrow> takeWhile (\<lambda>x. x \<noteq> TAB) row = k) \<Longrightarrow>
   tax (awk_begin v lines) k = Some row \<Longrightarrow> takeWhile (\<lambda>x. x \<noteq> TAB) row = k"
proof (induction v lines rule: awk_begin.induct)
  case (1 v)
  then show ?case by simp
next
  case (2 v line rest)
  show ?case
  proof (cases "NR v = 1")
    case True
    with 2 show ?thesis by simp
  next
    case False
    have "tax (awk_begin (v\<lparr>tax := (tax v)(awk_field (awk_split TAB line) 1 \<mapsto> line)\<rparr>) rest) k
            = Some row"
      using 2(4) False by simp
    moreover have "\<And>k' row'.
        tax (v\<lparr>tax := (tax v)(awk_field (awk_split TAB line) 1 \<mapsto> line)\<rparr>) k' = Some row'
        \<Longrightarrow> takeWhile (\<lambda>x. x \<noteq> TAB) row' = k'"
      using 2(3) by (auto simp: awk_field_first split: if_splits)
    ultimately show ?thesis using 2(2)[OF False] by blast
  qed
qed

text \<open>
  Every record the loop reads becomes an entry of \<^verbatim>\<open>tax\<close>, the first one included, and
  \<^verbatim>\<open>header\<close> is never assigned.
\<close>

lemma awk_begin_header: "NR v \<noteq> 1 \<Longrightarrow> header (awk_begin v lines) = header v"
  by (induction v lines rule: awk_begin.induct) auto

lemma awk_begin_dom:
  "NR v \<noteq> 1 \<Longrightarrow>
   dom (tax (awk_begin v lines)) = dom (tax v) \<union> (\<lambda>l. takeWhile (\<lambda>x. x \<noteq> TAB) l) ` set lines"
  by (induction v lines rule: awk_begin.induct) (auto simp: awk_field_first)

lemma awk_begin_stores_header_line:
  "takeWhile (\<lambda>x. x \<noteq> TAB) h \<in> dom (tax (awk_begin awk_start (h # rest)))
   \<and> header (awk_begin awk_start (h # rest)) = []"
  using awk_begin_dom[of awk_start "h # rest"] awk_begin_header[of awk_start "h # rest"]
  by (simp add: awk_start_def)

lemma column2_join:
  assumes "TAB \<notin> set a" "TAB \<notin> set b"
  shows "column 2 (awk_print (a # b # r # rs)) = takeWhile (\<lambda>x. x \<noteq> TAB) (awk_print (r # rs))"
proof -
  have "split_at TAB (awk_print (a # b # r # rs)) = a # b # split_at TAB (awk_print (r # rs))"
    using assms by (simp add: split_at_append)
  then show ?thesis
    using split_at_nonempty[of TAB "awk_print (r # rs)"] hd_split_at[of TAB "awk_print (r # rs)"]
    by (cases "split_at TAB (awk_print (r # rs))") (auto simp: column_def)
qed

text \<open>
  Claim C3 (the taxonomy lookup holds exactly the data rows, never the header line), at
  the table \<^verbatim>\<open>taxid<TAB>species\<close>, \<^verbatim>\<open>9606<TAB>Homo sapiens\<close>: after the \<^verbatim>\<open>BEGIN\<close> block
  the header line is an entry of \<^verbatim>\<open>tax\<close>, under the key \<^verbatim>\<open>taxid\<close>, beside the data row,
  and the variable \<^verbatim>\<open>header\<close> is still empty. \<^verbatim>\<open>NR\<close> is 0 throughout the loop, so the
  test \<^verbatim>\<open>NR==1\<close> that should skip the header never holds.
\<close>

theorem header_line_stored_in_tax:
  "tax (awk_begin awk_start [''taxid'' @ TAB # ''species'', ''9606'' @ TAB # ''Homo sapiens''])
       ''taxid'' = Some (''taxid'' @ TAB # ''species'')
   \<and> tax (awk_begin awk_start [''taxid'' @ TAB # ''species'', ''9606'' @ TAB # ''Homo sapiens''])
       ''9606'' = Some (''9606'' @ TAB # ''Homo sapiens'')
   \<and> header (awk_begin awk_start [''taxid'' @ TAB # ''species'', ''9606'' @ TAB # ''Homo sapiens''])
       = []"
  by (simp add: awk_start_def awk_field_def awk_split_def)

text \<open>
  Claim C4: for every taxonomy file and every hit record, the third column of the record
  the join prints (the taxon identifier of the classified row, in the known branch and in
  the unknown branch alike) is the part of the hit's target column before its first
  \<^verbatim>\<open>:\<close> (the whole target when it has none).
\<close>

theorem taxon_identifier_is_target_prefix:
  "taxon_identifier (awk_main (awk_begin awk_start taxonomy) hit)
     = takeWhile (\<lambda>c. c \<noteq> CHR '':'') (target_id hit)"
proof -
  let ?v = "awk_begin awk_start taxonomy"
  let ?fs = "awk_split TAB hit"
  let ?tid = "awk_field (awk_split (CHR '':'') (awk_field ?fs 2)) 1"
  have tid: "?tid = takeWhile (\<lambda>c. c \<noteq> CHR '':'') (target_id hit)"
    by (simp add: awk_field_first target_id_def)
  have notab: "TAB \<notin> set ?tid"
    using awk_field_no_sep[of TAB hit 2] by (auto simp: awk_field_first dest: set_takeWhileD)
  have f1: "TAB \<notin> set (awk_field ?fs 1)" and f3: "TAB \<notin> set (awk_field ?fs 3)"
    by (rule awk_field_no_sep)+
  show ?thesis
  proof (cases "tax ?v ?tid")
    case None
    then have "awk_main ?v hit = awk_print [awk_field ?fs 1, awk_field ?fs 3, ?tid, ''UNKNOWN'']"
      by (simp add: awk_main_def Let_def)
    then show ?thesis
      using column2_join[where r = ?tid and rs = "[''UNKNOWN'']", OF f1 f3] notab tid
      by (simp add: taxon_identifier_def takeWhile_upto_sep)
  next
    case (Some row)
    then have "awk_main ?v hit = awk_print [awk_field ?fs 1, awk_field ?fs 3, row]"
      by (simp add: awk_main_def Let_def)
    moreover have "takeWhile (\<lambda>x. x \<noteq> TAB) row = ?tid"
      using awk_begin_keys[of awk_start taxonomy ?tid row] Some by (simp add: awk_start_def)
    ultimately show ?thesis
      using column2_join[where r = row and rs = "[]", OF f1 f3] tid
      by (simp add: taxon_identifier_def)
  qed
qed

theorem taxon_identifier_is_target_prefix_witness:
  "taxon_identifier
     (awk_main (awk_begin awk_start [''taxid'' @ TAB # ''species'', ''9606'' @ TAB # ''Homo sapiens''])
        (''read1'' @ TAB # ''9606:seq7'' @ TAB # ''0.98''))
     = ''9606''"
  using taxon_identifier_is_target_prefix
    [of "[''taxid'' @ TAB # ''species'', ''9606'' @ TAB # ''Homo sapiens'']"
        "''read1'' @ TAB # ''9606:seq7'' @ TAB # ''0.98''"]
  by (simp add: target_id_def awk_field_def awk_split_def)

section \<open>Properties of the scan for first occurrences\<close>

lemma keep_first_keys:
  "set (map key (keep_first key seen xs)) = set (map key xs) - set seen"
  by (induction xs arbitrary: seen) auto

lemma keep_first_not_seen: "x \<in> set (keep_first key seen xs) \<Longrightarrow> key x \<notin> set seen"
proof (induction xs arbitrary: seen)
  case Nil
  then show ?case by simp
next
  case (Cons a xs)
  show ?case
  proof (cases "key a \<in> set seen")
    case True
    with Cons show ?thesis by simp
  next
    case False
    with Cons.prems have "x = a \<or> x \<in> set (keep_first key (key a # seen) xs)" by simp
    then show ?thesis using False Cons.IH[of "key a # seen"] by auto
  qed
qed

lemma keep_first_distinct: "distinct (map key (keep_first key seen xs))"
  by (induction xs arbitrary: seen) (auto dest: keep_first_not_seen)

lemma keep_first_subseq: "subseq (keep_first key seen xs) xs"
  by (induction xs arbitrary: seen) auto

lemma keep_first_find:
  "k \<notin> set seen \<Longrightarrow>
   find (\<lambda>x. key x = k) (keep_first key seen xs) = find (\<lambda>x. key x = k) xs"
  by (induction xs arbitrary: seen) auto

lemma keep_first_map:
  "keep_first key seen (map f xs) = map f (keep_first (\<lambda>x. key (f x)) seen xs)"
  by (induction xs arbitrary: seen) auto

lemma keep_first_filter_key:
  "filter (\<lambda>x. key x = k) (keep_first key seen xs) =
     (if k \<in> set seen then [] else take 1 (filter (\<lambda>x. key x = k) xs))"
proof (induction xs arbitrary: seen)
  case Nil
  then show ?case by simp
next
  case (Cons a xs)
  show ?case
  proof (cases "key a \<in> set seen")
    case True
    then show ?thesis using Cons.IH[of seen] by auto
  next
    case False
    then show ?thesis using Cons.IH[of "key a # seen"] by auto
  qed
qed

lemma unique_set: "set (unique xs) = set xs"
  using keep_first_keys[of "\<lambda>x. x" "[]" xs] by (simp add: unique_def)

lemma unique_distinct: "distinct (unique xs)"
  using keep_first_distinct[of "\<lambda>x. x" "[]" xs] by (simp add: unique_def)

section \<open>Properties of float64 rounding\<close>

lemma round_half_even_error: "\<bar>of_int (round_half_even y) - y\<bar> \<le> 1 / 2"
proof -
  have "of_int \<lfloor>y\<rfloor> \<le> y" "y < of_int \<lfloor>y\<rfloor> + 1" by linarith+
  then show ?thesis
    by (auto simp: round_half_even_def Let_def)
qed

lemma expo_le:
  assumes "0 < x"
  shows "2 powi (expo x) \<le> x"
proof (cases "1 \<le> x")
  case True
  let ?n = "nat \<lfloor>x\<rfloor>"
  have n: "0 < ?n" using True by simp
  have "2 ^ (floorlog 2 ?n - 1) \<le> ?n"
    using floorlog_bounds[of ?n 2] n by simp
  then have "(2::rat) ^ (floorlog 2 ?n - 1) \<le> of_nat ?n"
    by (metis of_nat_le_iff of_nat_numeral of_nat_power)
  also have "(of_nat ?n :: rat) = of_int \<lfloor>x\<rfloor>" using True by simp
  also have "\<dots> \<le> x" by simp
  finally have le: "(2::rat) ^ (floorlog 2 ?n - 1) \<le> x" .
  have pos: "0 < floorlog 2 ?n" using n by (simp add: floorlog_eq_zero_iff Suc_le_eq flip: not_le)
  have "expo x = int (floorlog 2 ?n - 1)" using True pos by (simp add: expo_def of_nat_diff)
  then show ?thesis using le by (simp add: power_int_def)
next
  case False
  let ?m = "nat \<lceil>1 / x\<rceil>"
  let ?k = "floorlog 2 (?m - 1)"
  have inv: "1 < 1 / x" using False assms by simp
  then have m2: "2 \<le> \<lceil>1 / x\<rceil>" by linarith
  then have m1: "0 < ?m - 1" by simp
  have "?m - 1 < 2 ^ ?k" using floorlog_bounds[of "?m - 1" 2] m1 by simp
  then have "?m \<le> 2 ^ ?k" by linarith
  then have A: "(of_nat ?m :: rat) \<le> 2 ^ ?k"
    by (metis of_nat_le_iff of_nat_numeral of_nat_power)
  have B: "1 / x \<le> of_nat ?m"
  proof -
    have "1 / x \<le> of_int \<lceil>1 / x\<rceil>" by simp
    also have "\<dots> = of_nat ?m" using m2 by simp
    finally show ?thesis .
  qed
  from B A have "1 / x \<le> 2 ^ ?k" by (rule order_trans)
  then have "1 / 2 ^ ?k \<le> x"
    using assms by (simp add: field_simps)
  moreover have "expo x = - int ?k" using False by (simp add: expo_def)
  then have "(2 powi (expo x) :: rat) = 1 / 2 ^ ?k"
    by (simp add: power_int_minus inverse_eq_divide)
  ultimately show ?thesis by simp
qed

text \<open>Rounding changes a number by at most \<open>2\<^sup>-\<^sup>5\<^sup>3\<close> of its magnitude.\<close>

lemma float64_error: "\<bar>float64 x - x\<bar> \<le> \<bar>x\<bar> / 2 ^ 53"
proof (cases "x = 0")
  case True
  then show ?thesis by (simp add: float64_def)
next
  case False
  let ?a = "\<bar>x\<bar>"
  let ?s = "2 powi (expo ?a - 52) :: rat"
  let ?m = "round_half_even (?a / ?s)"
  have a: "0 < ?a" using False by simp
  have s: "0 < ?s" by simp
  have s_eq: "?s = 2 powi (expo ?a) / 2 ^ 52"
    by (simp add: power_int_diff)
  have s_le: "?s \<le> ?a / 2 ^ 52"
    unfolding s_eq using expo_le[OF a] by (simp add: divide_right_mono)
  have "\<bar>of_int ?m - ?a / ?s\<bar> \<le> 1 / 2" by (rule round_half_even_error)
  then have "\<bar>of_int ?m - ?a / ?s\<bar> * ?s \<le> 1 / 2 * ?s"
    using s by (intro mult_right_mono) simp_all
  moreover have "\<bar>of_int ?m - ?a / ?s\<bar> * ?s = \<bar>of_int ?m * ?s - ?a\<bar>"
  proof -
    have "\<bar>of_int ?m - ?a / ?s\<bar> * ?s = \<bar>(of_int ?m - ?a / ?s) * ?s\<bar>"
      using s by (simp add: abs_mult)
    also have "(of_int ?m - ?a / ?s) * ?s = of_int ?m * ?s - ?a"
      using s by (simp add: field_simps)
    finally show ?thesis .
  qed
  ultimately have err: "\<bar>of_int ?m * ?s - ?a\<bar> \<le> ?a / 2 ^ 53"
    using s_le by simp
  have "float64 x - x = sgn x * (of_int ?m * ?s - ?a)"
    using False by (simp add: float64_def Let_def algebra_simps flip: abs_sgn mult_sgn_abs)
      (metis mult.commute mult_sgn_abs)
  then have "\<bar>float64 x - x\<bar> = \<bar>of_int ?m * ?s - ?a\<bar>"
    using False by (simp add: abs_mult abs_sgn_eq)
  then show ?thesis using err by simp
qed

lemma float64_bounds:
  assumes "0 \<le> x"
  shows "x * (1 - 1 / 2 ^ 53) \<le> float64 x" and "float64 x \<le> x * (1 + 1 / 2 ^ 53)"
proof -
  have "\<bar>float64 x - x\<bar> \<le> x / 2 ^ 53" using float64_error[of x] assms by simp
  then have "x - x / 2 ^ 53 \<le> float64 x" "float64 x \<le> x + x / 2 ^ 53" by linarith+
  moreover have "x * (1 - 1 / 2 ^ 53) = x - x / 2 ^ 53" "x * (1 + 1 / 2 ^ 53) = x + x / 2 ^ 53"
    by (simp_all add: algebra_simps)
  ultimately show "x * (1 - 1 / 2 ^ 53) \<le> float64 x" "float64 x \<le> x * (1 + 1 / 2 ^ 53)"
    by simp_all
qed

lemma float64_nonneg: "0 \<le> x \<Longrightarrow> 0 \<le> float64 x"
proof -
  assume x: "0 \<le> x"
  have "0 \<le> x * (1 - 1 / 2 ^ 53)" using x by (intro mult_nonneg_nonneg) simp_all
  then show ?thesis using float64_bounds(1)[OF x] by linarith
qed

lemma float64_pos: "0 < x \<Longrightarrow> 0 < float64 x"
proof -
  assume x: "0 < x"
  have "0 < x * (1 - 1 / 2 ^ 53)" using x by (intro mult_pos_pos) simp_all
  then show ?thesis using float64_bounds(1)[of x] x by linarith
qed

text \<open>The quotient of two counts is within \<open>2\<^sup>-\<^sup>5\<^sup>0\<close> of the exact quotient.\<close>

lemma true_divide_bounds:
  assumes "0 < n"
  shows "of_nat c / of_nat n * (1 - 1 / 2 ^ 50) \<le> true_divide c n"
    and "true_divide c n \<le> of_nat c / of_nat n * (1 + 1 / 2 ^ 50)"
proof -
  define u :: rat where "u = 1 / 2 ^ 53"
  define C :: rat where "C = of_nat c"
  define N :: rat where "N = of_nat n"
  define fc where "fc = float64 C"
  define fn where "fn = float64 N"
  have u: "0 < u" "u \<le> 1 / 8" by (simp_all add: u_def)
  have e50: "1 / 2 ^ 50 = 8 * u" by (simp add: u_def)
  have k2: "0 \<le> 1 - 2 * u" and k4: "0 \<le> 1 + 4 * u" and k1: "0 \<le> 1 - u" "0 \<le> 1 + u"
    using u by simp_all
  have C: "0 \<le> C" and N: "0 < N" using assms by (simp_all add: C_def N_def)
  have r: "0 \<le> C / N" using C N by simp
  have fc: "C * (1 - u) \<le> fc" "fc \<le> C * (1 + u)"
    unfolding fc_def u_def using float64_bounds[OF C] by simp_all
  have fn: "N * (1 - u) \<le> fn" "fn \<le> N * (1 + u)"
    unfolding fn_def u_def using float64_bounds[of N] N by simp_all
  have fn_pos: "0 < fn" unfolding fn_def using N by (rule float64_pos)
  have fc_nn: "0 \<le> fc" unfolding fc_def using C by (rule float64_nonneg)
  have q_nn: "0 \<le> fc / fn" using fc_nn fn_pos by simp
  have lo1: "C / N * (1 - 2 * u) \<le> fc / fn"
  proof -
    have "C / N * (1 - 2 * u) * fn \<le> C / N * (1 - 2 * u) * (N * (1 + u))"
      using fn(2) r k2 by (intro mult_left_mono mult_nonneg_nonneg)
    also have "\<dots> = C * ((1 - 2 * u) * (1 + u))" using N by (simp add: field_simps)
    also have "\<dots> \<le> C * (1 - u)"
    proof (rule mult_left_mono)
      have "0 \<le> 2 * u * u" using u by simp
      then show "(1 - 2 * u) * (1 + u) \<le> 1 - u" by (simp add: algebra_simps)
      show "0 \<le> C" by (rule C)
    qed
    also have "\<dots> \<le> fc" by (rule fc(1))
    finally show ?thesis using fn_pos by (simp add: pos_le_divide_eq)
  qed
  have hi1: "fc / fn \<le> C / N * (1 + 4 * u)"
  proof -
    have "fc \<le> C * (1 + u)" by (rule fc(2))
    also have "\<dots> \<le> C * ((1 + 4 * u) * (1 - u))"
    proof (rule mult_left_mono)
      have "4 * u * u \<le> 2 * u" using u by (simp add: mult_left_le)
      then show "1 + u \<le> (1 + 4 * u) * (1 - u)" by (simp add: algebra_simps)
      show "0 \<le> C" by (rule C)
    qed
    also have "\<dots> = C / N * (1 + 4 * u) * (N * (1 - u))" using N by (simp add: field_simps)
    also have "\<dots> \<le> C / N * (1 + 4 * u) * fn"
      using fn(1) r k4 by (intro mult_left_mono mult_nonneg_nonneg)
    finally show ?thesis using fn_pos by (simp add: pos_divide_le_eq)
  qed
  have td: "true_divide c n = float64 (fc / fn)"
    by (simp add: true_divide_def fc_def fn_def C_def N_def)
  have "C / N * (1 - 8 * u) \<le> C / N * ((1 - 2 * u) * (1 - u))"
  proof (rule mult_left_mono)
    have "0 \<le> 2 * u * u" "0 \<le> 5 * u" using u by simp_all
    then show "1 - 8 * u \<le> (1 - 2 * u) * (1 - u)" by (simp add: algebra_simps)
    show "0 \<le> C / N" by (rule r)
  qed
  also have "\<dots> = C / N * (1 - 2 * u) * (1 - u)" by simp
  also have "\<dots> \<le> fc / fn * (1 - u)"
    using lo1 k1 by (intro mult_right_mono)
  also have "\<dots> \<le> float64 (fc / fn)"
    unfolding u_def using float64_bounds(1)[OF q_nn] by simp
  finally show "of_nat c / of_nat n * (1 - 1 / 2 ^ 50) \<le> true_divide c n"
    by (simp only: td e50 C_def N_def)
  have "float64 (fc / fn) \<le> fc / fn * (1 + u)"
    unfolding u_def using float64_bounds(2)[OF q_nn] by simp
  also have "\<dots> \<le> C / N * (1 + 4 * u) * (1 + u)"
    using hi1 k1 by (intro mult_right_mono)
  also have "\<dots> = C / N * ((1 + 4 * u) * (1 + u))" by simp
  also have "\<dots> \<le> C / N * (1 + 8 * u)"
  proof (rule mult_left_mono)
    have "4 * u * u \<le> 3 * u" using u by (simp add: mult_left_le)
    then show "(1 + 4 * u) * (1 + u) \<le> 1 + 8 * u" by (simp add: algebra_simps)
    show "0 \<le> C / N" by (rule r)
  qed
  finally show "true_divide c n \<le> of_nat c / of_nat n * (1 + 1 / 2 ^ 50)"
    by (simp only: td e50 C_def N_def)
qed

section \<open>Properties of float64 sums\<close>

lemma power_one_minus_ge:
  fixes u :: rat
  assumes "0 \<le> u" "u \<le> 1"
  shows "1 - of_nat d * u \<le> (1 - u) ^ d"
proof (induction d)
  case 0
  then show ?case by simp
next
  case (Suc d)
  have "1 - of_nat (Suc d) * u \<le> (1 - of_nat d * u) * (1 - u)"
  proof -
    have "0 \<le> of_nat d * u * u" using assms by simp
    then show ?thesis by (simp add: algebra_simps)
  qed
  also have "\<dots> \<le> (1 - u) ^ d * (1 - u)"
    using Suc assms by (intro mult_right_mono) simp_all
  finally show ?case by (simp only: power_Suc2)
qed

lemma power_one_plus_le:
  fixes u :: rat
  assumes "0 \<le> u"
  shows "(1 + u) ^ d * (1 - of_nat d * u) \<le> 1"
proof (induction d)
  case 0
  then show ?case by simp
next
  case (Suc d)
  have "(1 + u) * (1 - of_nat (Suc d) * u) \<le> 1 - of_nat d * u"
  proof -
    have "0 \<le> (of_nat d + 1) * u * u" using assms by simp
    then show ?thesis by (simp add: algebra_simps)
  qed
  then have "(1 + u) ^ d * ((1 + u) * (1 - of_nat (Suc d) * u)) \<le> (1 + u) ^ d * (1 - of_nat d * u)"
    using assms by (intro mult_left_mono) simp_all
  also have "\<dots> \<le> 1" by (rule Suc)
  finally show ?case by (simp only: power_Suc2 mult.assoc)
qed

text \<open>
  A float64 sum of non-negative values lies between the exact sum scaled down and scaled
  up by one rounding for every addition on the longest chain.
\<close>

lemma run_plan_bounds:
  assumes "\<forall>x \<in> set xs. 0 \<le> x"
  shows "0 \<le> sum_list (map (\<lambda>i. if i < length xs then xs ! i else 0) (leaves p))
       \<and> sum_list (map (\<lambda>i. if i < length xs then xs ! i else 0) (leaves p)) * (1 - 1 / 2 ^ 53) ^ depth p
           \<le> run_plan xs p
       \<and> run_plan xs p
           \<le> sum_list (map (\<lambda>i. if i < length xs then xs ! i else 0) (leaves p)) * (1 + 1 / 2 ^ 53) ^ depth p"
proof (induction p)
  case Zero
  then show ?case by simp
next
  case (Value i)
  then show ?case using assms by simp
next
  case (Add p q)
  define a :: rat where "a = 1 - 1 / 2 ^ 53"
  define b :: rat where "b = 1 + 1 / 2 ^ 53"
  define L where "L = (\<lambda>p. sum_list (map (\<lambda>i. if i < length xs then xs ! i else 0) (leaves p)))"
  define d where "d = max (depth p) (depth q)"
  have a: "0 \<le> a" "a \<le> 1" and b: "1 \<le> b" by (simp_all add: a_def b_def)
  have p: "0 \<le> L p" "L p * a ^ depth p \<le> run_plan xs p" "run_plan xs p \<le> L p * b ^ depth p"
    using Add.IH(1) by (simp_all add: L_def a_def b_def)
  have q: "0 \<le> L q" "L q * a ^ depth q \<le> run_plan xs q" "run_plan xs q \<le> L q * b ^ depth q"
    using Add.IH(2) by (simp_all add: L_def a_def b_def)
  have ad: "a ^ d \<le> a ^ depth p" "a ^ d \<le> a ^ depth q"
    using a by (simp_all add: d_def power_decreasing)
  have bd: "b ^ depth p \<le> b ^ d" "b ^ depth q \<le> b ^ d"
    using b by (simp_all add: d_def power_increasing)
  have lo: "(L p + L q) * a ^ d \<le> run_plan xs p + run_plan xs q"
  proof -
    have "L p * a ^ d \<le> L p * a ^ depth p" "L q * a ^ d \<le> L q * a ^ depth q"
      using p(1) q(1) ad by (simp_all add: mult_left_mono)
    then show ?thesis using p(2) q(2) by (simp add: algebra_simps)
  qed
  have hi: "run_plan xs p + run_plan xs q \<le> (L p + L q) * b ^ d"
  proof -
    have "L p * b ^ depth p \<le> L p * b ^ d" "L q * b ^ depth q \<le> L q * b ^ d"
      using p(1) q(1) bd by (simp_all add: mult_left_mono)
    then show ?thesis using p(3) q(3) by (simp add: algebra_simps)
  qed
  have nn: "0 \<le> run_plan xs p + run_plan xs q"
  proof -
    have "0 \<le> (L p + L q) * a ^ d" using p(1) q(1) a by simp
    then show ?thesis using lo by linarith
  qed
  have fl: "(run_plan xs p + run_plan xs q) * a \<le> fadd (run_plan xs p) (run_plan xs q)"
    and fh: "fadd (run_plan xs p) (run_plan xs q) \<le> (run_plan xs p + run_plan xs q) * b"
    unfolding fadd_def a_def b_def using float64_bounds[OF nn] by simp_all
  have low: "(L p + L q) * a ^ Suc d \<le> fadd (run_plan xs p) (run_plan xs q)"
  proof -
    have "(L p + L q) * a ^ Suc d = (L p + L q) * a ^ d * a"
      by (simp only: power_Suc2 mult.assoc)
    also have "\<dots> \<le> (run_plan xs p + run_plan xs q) * a"
      using lo a by (intro mult_right_mono)
    also have "\<dots> \<le> fadd (run_plan xs p) (run_plan xs q)" by (rule fl)
    finally show ?thesis .
  qed
  have high: "fadd (run_plan xs p) (run_plan xs q) \<le> (L p + L q) * b ^ Suc d"
  proof -
    have "fadd (run_plan xs p) (run_plan xs q) \<le> (run_plan xs p + run_plan xs q) * b"
      by (rule fh)
    also have "\<dots> \<le> (L p + L q) * b ^ d * b"
      using hi b by (intro mult_right_mono) simp_all
    also have "\<dots> = (L p + L q) * b ^ Suc d"
      by (simp only: power_Suc2 mult.assoc)
    finally show ?thesis .
  qed
  show ?case
    using low high p(1) q(1) by (simp add: L_def a_def b_def d_def)
qed

lemma plan_for_leaves:
  fixes xs :: "rat list"
  assumes "plan_for (length xs) p"
  shows "sum_list (map (\<lambda>i. if i < length xs then xs ! i else 0) (leaves p)) = sum_list xs"
proof -
  let ?f = "\<lambda>i. if i < length xs then xs ! i else (0 :: rat)"
  have "sum_list (map ?f (leaves p)) = sum_mset (image_mset ?f (mset (leaves p)))"
    by (simp flip: sum_mset_sum_list)
  also have "\<dots> = sum_mset (image_mset ?f (mset [0..<length xs]))"
    using assms by (simp add: plan_for_def)
  also have "\<dots> = sum_list (map ?f [0..<length xs])"
    by (simp flip: sum_mset_sum_list)
  also have "map ?f [0..<length xs] = map (nth xs) [0..<length xs]"
    by (rule map_cong) simp_all
  also have "\<dots> = xs" by (rule map_nth)
  finally show ?thesis .
qed




text \<open>
  Values whose exact sum is within \<open>2\<^sup>-\<^sup>5\<^sup>0\<close> of 1, added in float64 by a plan whose
  additions are nested at most \<open>2\<^sup>2\<^sup>0\<close> deep, give a sum within \<open>10\<^sup>-\<^sup>9\<close> of 1.
\<close>

lemma float_sum_near_one:
  assumes nonneg: "\<forall>x \<in> set xs. 0 \<le> x"
    and plan: "plan_for (length xs) p"
    and deep: "depth p \<le> 2 ^ 20"
    and exact: "1 - 1 / 2 ^ 50 \<le> sum_list xs" "sum_list xs \<le> 1 + 1 / 2 ^ 50"
  shows "\<bar>run_plan xs p - 1\<bar> \<le> 1 / 10 ^ 9"
proof -
  define u :: rat where "u = 1 / 2 ^ 53"
  define S where "S = sum_list xs"
  define d where "d = depth p"
  have S: "1 - 1 / 2 ^ 50 \<le> S" "S \<le> 1 + 1 / 2 ^ 50" using exact by (simp_all add: S_def)
  have bounds: "S * (1 - u) ^ d \<le> run_plan xs p" "run_plan xs p \<le> S * (1 + u) ^ d"
    using run_plan_bounds[OF nonneg, of p] plan_for_leaves[OF plan]
    by (simp_all add: S_def u_def d_def)
  have du: "of_nat d * u \<le> 1 / 2 ^ 33"
  proof -
    have "(of_nat d :: rat) \<le> 2 ^ 20" using deep unfolding d_def
      by (metis of_nat_le_iff of_nat_numeral of_nat_power)
    then have "of_nat d * u \<le> 2 ^ 20 * u" by (intro mult_right_mono) (simp_all add: u_def)
    then show ?thesis by (simp add: u_def)
  qed
  have lo_pow: "1 - 1 / 2 ^ 33 \<le> (1 - u) ^ d"
    using power_one_minus_ge[of u d] du by (simp add: u_def)
  have hi_pow: "(1 + u) ^ d \<le> 1 + 1 / 2 ^ 32"
  proof -
    have "(1 + u) ^ d * (1 - 1 / 2 ^ 33) \<le> (1 + u) ^ d * (1 - of_nat d * u)"
      using du by (intro mult_left_mono) (simp_all add: u_def)
    also have "\<dots> \<le> 1" by (rule power_one_plus_le) (simp add: u_def)
    finally have "(1 + u) ^ d \<le> 1 / (1 - 1 / 2 ^ 33)" by (simp add: pos_le_divide_eq)
    then show ?thesis by simp
  qed
  have "1 - 1 / 10 ^ 9 \<le> (1 - 1 / 2 ^ 50) * (1 - 1 / 2 ^ 33 :: rat)" by simp
  also have "\<dots> \<le> S * (1 - 1 / 2 ^ 33)" using S(1) by (intro mult_right_mono) simp_all
  also have "\<dots> \<le> S * (1 - u) ^ d"
    using lo_pow S(1) by (intro mult_left_mono) simp_all
  finally have lower: "1 - 1 / 10 ^ 9 \<le> run_plan xs p" using bounds(1) by linarith
  have "S * (1 + u) ^ d \<le> S * (1 + 1 / 2 ^ 32)"
    using hi_pow S(1) by (intro mult_left_mono) simp_all
  also have "\<dots> \<le> (1 + 1 / 2 ^ 50) * (1 + 1 / 2 ^ 32)"
    using S(2) by (intro mult_right_mono) simp_all
  also have "\<dots> \<le> 1 + 1 / 10 ^ 9" by simp
  finally have upper: "run_plan xs p \<le> 1 + 1 / 10 ^ 9" using bounds(2) by linarith
  from lower upper have "run_plan xs p - 1 \<le> 1 / 10 ^ 9" "- (run_plan xs p - 1) \<le> 1 / 10 ^ 9"
    by linarith+
  then show ?thesis by (rule abs_leI)
qed

section \<open>Properties of the abundance table\<close>

lemma sum_counts_unique: "sum_list (map (count_list xs) (unique xs)) = length xs"
proof -
  have "sum_list (map (count_list xs) (unique xs)) = sum (count_list xs) (set xs)"
    using sum_list_distinct_conv_sum_set[OF unique_distinct, of "count_list xs" xs]
    by (simp add: unique_set)
  also have "\<dots> = length xs"
    by (rule sum_count_set) auto
  finally show ?thesis .
qed

lemma sum_list_sort_key:
  fixes h :: "'a \<Rightarrow> 'b::comm_monoid_add"
  shows "sum_list (map h (sort_key f xs)) = sum_list (map h xs)"
proof -
  have "sum_mset (mset (map h (sort_key f xs))) = sum_mset (mset (map h xs))" by simp
  then show ?thesis unfolding sum_mset_sum_list .
qed

lemma sum_list_divide:
  fixes f :: "'a \<Rightarrow> rat"
  shows "sum_list (map (\<lambda>x. f x / c) xs) = sum_list (map f xs) / c"
  by (induction xs) (auto simp: add_divide_distrib)

lemma of_nat_sum_list_map:
  "(of_nat (sum_list (map g xs)) :: rat) = sum_list (map (\<lambda>x. of_nat (g x)) xs)"
  by (induction xs) auto

lemma count_list_dropna: "k \<noteq> None \<Longrightarrow> count_list (filter (\<lambda>c. c \<noteq> None) col) k = count_list col k"
  by (induction col) auto

lemma value_counts_total:
  "sum_list (map snd (value_counts col)) = length (filter (\<lambda>c. c \<noteq> None) col)"
  by (simp add: value_counts_def Let_def sum_list_sort_key comp_def sum_counts_unique)

lemma value_counts_set:
  "set (value_counts col) = (\<lambda>k. (k, count_list col k)) ` (set col - {None})"
proof -
  let ?vals = "filter (\<lambda>c. c \<noteq> None) col"
  have vals: "set ?vals = set col - {None}" by auto
  have "set (value_counts col) = (\<lambda>k. (k, count_list ?vals k)) ` set ?vals"
    by (simp add: value_counts_def Let_def unique_set del: not_None_eq)
  also have "\<dots> = (\<lambda>k. (k, count_list col k)) ` set ?vals"
    by (rule image_cong) (simp_all add: count_list_dropna del: not_None_eq)
  finally show ?thesis by (simp only: vals)
qed

lemma value_counts_keys_distinct: "distinct (map fst (value_counts col))"
  by (simp add: value_counts_def Let_def distinct_map comp_def unique_distinct inj_on_def)

lemma value_counts_normalize_unfold:
  "value_counts_normalize col =
     map (\<lambda>(k, n). (k, true_divide n (length (filter (\<lambda>c. c \<noteq> None) col))))
       (value_counts col)"
  by (simp add: value_counts_normalize_def Let_def value_counts_total)

lemma abundance_keys: "map fst (value_counts_normalize col) = map fst (value_counts col)"
  by (simp add: value_counts_normalize_unfold comp_def case_prod_unfold)

lemma abundance_keys_distinct: "distinct (map fst (value_counts_normalize col))"
  by (simp add: abundance_keys value_counts_keys_distinct)

lemma abundance_keys_set: "set (map fst (value_counts_normalize col)) = set col - {None}"
  by (simp add: abundance_keys value_counts_set image_image)

lemma abundance_set:
  "set (value_counts_normalize col) =
     (\<lambda>k. (k, true_divide (count_list col k) (length (filter (\<lambda>c. c \<noteq> None) col))))
       ` (set col - {None})"
  by (auto simp: value_counts_normalize_unfold value_counts_set image_iff)

lemma abundance_lookup:
  "map_of (value_counts_normalize col) k =
     (if k \<in> set col \<and> k \<noteq> None
      then Some (true_divide (count_list col k) (length (filter (\<lambda>c. c \<noteq> None) col)))
      else None)"
proof (cases "k \<in> set col \<and> k \<noteq> None")
  case True
  then have "(k, true_divide (count_list col k) (length (filter (\<lambda>c. c \<noteq> None) col)))
      \<in> set (value_counts_normalize col)"
    by (auto simp: abundance_set)
  then show ?thesis
    using True abundance_keys_distinct[of col] by simp
next
  case False
  then have "k \<notin> fst ` set (value_counts_normalize col)"
    by (auto simp: abundance_set)
  then have "map_of (value_counts_normalize col) k = None"
    by (simp add: map_of_eq_None_iff)
  then show ?thesis by (simp only: False if_False)
qed

lemma true_divide_nonneg: "0 \<le> true_divide c n"
  unfolding true_divide_def
  by (intro float64_nonneg divide_nonneg_nonneg) simp_all

lemma abundance_nonneg: "x \<in> set (map snd (value_counts_normalize col)) \<Longrightarrow> 0 \<le> x"
  by (auto simp: value_counts_normalize_unfold true_divide_nonneg)

text \<open>
  The fractions of the abundance table, added exactly, are within \<open>2\<^sup>-\<^sup>5\<^sup>0\<close> of 1 as soon
  as one row has a species.
\<close>

lemma abundance_exact_sum:
  assumes "\<exists>c \<in> set col. c \<noteq> None"
  shows "1 - 1 / 2 ^ 50 \<le> sum_list (map snd (value_counts_normalize col))"
    and "sum_list (map snd (value_counts_normalize col)) \<le> 1 + 1 / 2 ^ 50"
proof -
  let ?n = "length (filter (\<lambda>c. c \<noteq> None) col)"
  have ne: "0 < ?n" using assms by (auto simp: filter_empty_conv)
  have table: "sum_list (map snd (value_counts_normalize col))
      = sum_list (map (\<lambda>p. true_divide (snd p) ?n) (value_counts col))"
    by (simp add: value_counts_normalize_unfold comp_def case_prod_unfold)
  have exact: "sum_list (map (\<lambda>p. of_nat (snd p) / of_nat ?n * c) (value_counts col)) = c"
    for c :: rat
  proof -
    have "sum_list (map (\<lambda>p. of_nat (snd p) / of_nat ?n * c) (value_counts col))
        = sum_list (map (\<lambda>p. of_nat (snd p) / of_nat ?n) (value_counts col)) * c"
      by (rule sum_list_mult_const)
    also have "sum_list (map (\<lambda>p. of_nat (snd p) / of_nat ?n) (value_counts col))
        = sum_list (map (\<lambda>p. of_nat (snd p)) (value_counts col)) / (of_nat ?n :: rat)"
      by (rule sum_list_divide)
    also have "sum_list (map (\<lambda>p. of_nat (snd p)) (value_counts col)) = (of_nat ?n :: rat)"
      using value_counts_total[of col] of_nat_sum_list_map[of snd "value_counts col"] by simp
    finally show ?thesis using ne by simp
  qed
  have "sum_list (map (\<lambda>p. of_nat (snd p) / of_nat ?n * (1 - 1 / 2 ^ 50)) (value_counts col))
      \<le> sum_list (map (\<lambda>p. true_divide (snd p) ?n) (value_counts col))"
    by (rule sum_list_mono) (rule true_divide_bounds(1)[OF ne])
  then show "1 - 1 / 2 ^ 50 \<le> sum_list (map snd (value_counts_normalize col))"
    unfolding table exact .
  have "sum_list (map (\<lambda>p. true_divide (snd p) ?n) (value_counts col))
      \<le> sum_list (map (\<lambda>p. of_nat (snd p) / of_nat ?n * (1 + 1 / 2 ^ 50)) (value_counts col))"
    by (rule sum_list_mono) (rule true_divide_bounds(2)[OF ne])
  then show "sum_list (map snd (value_counts_normalize col)) \<le> 1 + 1 / 2 ^ 50"
    unfolding table exact .
qed

section \<open>Properties of the merge\<close>

lemma get_update_same: "get (AList.update k v r) k = v"
  by (simp add: get_def update_conv')

lemma get_delete_other: "n \<noteq> k \<Longrightarrow> get (AList.delete k (AList.update k v r)) n = get r n"
  by (simp add: get_def delete_conv' update_conv')

lemma merge_row_abundance:
  "abundance (merge_row table r) = map_of table (str_replace (get r ''species''))"
  by (simp add: merge_row_def Let_def get_update_same)

lemma merge_row_cells:
  "n \<noteq> ''species_norm'' \<Longrightarrow> get (cells (merge_row table r)) n = get r n"
  by (simp add: merge_row_def Let_def get_delete_other)

lemma merge_row_species: "get (cells (merge_row table r)) ''species'' = get r ''species''"
  by (rule merge_row_cells) simp

lemma compute_abundances_Inr:
  assumes "compute_abundances df = Inr (table, merged)"
  shows "table = value_counts_normalize (map (\<lambda>r. str_replace (get r ''species'')) (rows df))"
    and "merged = map (merge_row table) (rows df)"
  using assms by (auto simp: compute_abundances_def Let_def comp_def split: if_splits)

section \<open>The claims about abundances\<close>

text \<open>
  Claim C1, as amended: for every table with at least one row whose rows all carry a
  species, the float64 fractions of the abundance table, one for each distinct normalized
  species name, sum to 1 within \<open>10\<^sup>-\<^sup>9\<close>: their exact sum does, and so does their float64
  sum for every order of the additions in which at most \<open>2\<^sup>2\<^sup>0\<close> additions are nested.
\<close>

theorem abundance_fractions_sum_to_one:
  assumes "compute_abundances df = Inr (table, merged)"
    and "rows df \<noteq> []"
    and "\<forall>r \<in> set (rows df). get r ''species'' \<noteq> None"
  shows "\<bar>sum_list (map snd table) - 1\<bar> \<le> 1 / 10 ^ 9
       \<and> (\<forall>p. plan_for (length table) p \<and> depth p \<le> 2 ^ 20 \<longrightarrow>
              \<bar>run_plan (map snd table) p - 1\<bar> \<le> 1 / 10 ^ 9)
       \<and> distinct (map fst table)
       \<and> set (map fst table) = (\<lambda>r. str_replace (get r ''species'')) ` set (rows df)"
proof -
  let ?norm = "map (\<lambda>r. str_replace (get r ''species'')) (rows df)"
  have table: "table = value_counts_normalize ?norm"
    using assms(1) by (rule compute_abundances_Inr)
  have nonnull: "None \<notin> set ?norm"
    using assms(3) by (auto simp: str_replace_def)
  obtain r where "r \<in> set (rows df)"
    using assms(2) by (cases "rows df") auto
  then have "str_replace (get r ''species'') \<in> set ?norm" by simp
  with nonnull have some: "\<exists>c \<in> set ?norm. c \<noteq> None" by metis
  have lo: "1 - 1 / 2 ^ 50 \<le> sum_list (map snd table)"
    and hi: "sum_list (map snd table) \<le> 1 + 1 / 2 ^ 50"
    unfolding table using some by (rule abundance_exact_sum)+
  have "sum_list (map snd table) - 1 \<le> 1 / 10 ^ 9" "- (sum_list (map snd table) - 1) \<le> 1 / 10 ^ 9"
    using lo hi by simp_all
  then have exact: "\<bar>sum_list (map snd table) - 1\<bar> \<le> 1 / 10 ^ 9" by (rule abs_leI)
  have nonneg: "\<forall>x \<in> set (map snd table). 0 \<le> x"
    unfolding table using abundance_nonneg by blast
  have float: "\<bar>run_plan (map snd table) p - 1\<bar> \<le> 1 / 10 ^ 9"
    if "plan_for (length table) p" "depth p \<le> 2 ^ 20" for p
    using float_sum_near_one[OF nonneg _ that(2) lo hi] that(1) by simp
  have "distinct (map fst table)"
    unfolding table by (rule abundance_keys_distinct)
  moreover have "set (map fst table) = (\<lambda>r. str_replace (get r ''species'')) ` set (rows df)"
    unfolding table abundance_keys_set using nonnull by auto
  ultimately show ?thesis using exact float by blast
qed

theorem abundance_fractions_sum_to_one_witness:
  "compute_abundances
     \<lparr>columns = [''centroid'', ''species''],
      rows = [[(''centroid'', Some ''r1''), (''species'', Some ''Homo sapiens'')],
              [(''centroid'', Some ''r2''), (''species'', Some ''Pan troglodytes'')],
              [(''centroid'', Some ''r3''), (''species'', Some ''Gorilla gorilla'')]]\<rparr>
   = Inr ([(Some ''Homo_sapiens'', 6004799503160661 / 18014398509481984),
           (Some ''Pan_troglodytes'', 6004799503160661 / 18014398509481984),
           (Some ''Gorilla_gorilla'', 6004799503160661 / 18014398509481984)],
          [\<lparr>cells = [(''centroid'', Some ''r1''), (''species'', Some ''Homo sapiens'')],
            abundance = Some (6004799503160661 / 18014398509481984)\<rparr>,
           \<lparr>cells = [(''centroid'', Some ''r2''), (''species'', Some ''Pan troglodytes'')],
            abundance = Some (6004799503160661 / 18014398509481984)\<rparr>,
           \<lparr>cells = [(''centroid'', Some ''r3''), (''species'', Some ''Gorilla gorilla'')],
            abundance = Some (6004799503160661 / 18014398509481984)\<rparr>])
   \<and> \<bar>sum_list (map snd
         [(Some ''Homo_sapiens'', 6004799503160661 / 18014398509481984 :: rat),
          (Some ''Pan_troglodytes'', 6004799503160661 / 18014398509481984),
          (Some ''Gorilla_gorilla'', 6004799503160661 / 18014398509481984)]) - 1\<bar> \<le> 1 / 10 ^ 9"
proof -
  let ?df = "\<lparr>columns = [''centroid'', ''species''],
      rows = [[(''centroid'', Some ''r1''), (''species'', Some ''Homo sapiens'')],
              [(''centroid'', Some ''r2''), (''species'', Some ''Pan troglodytes'')],
              [(''centroid'', Some ''r3''), (''species'', Some ''Gorilla gorilla'')]]\<rparr>"
  let ?third = "6004799503160661 / 18014398509481984 :: rat"
  let ?table = "[(Some ''Homo_sapiens'', ?third), (Some ''Pan_troglodytes'', ?third),
      (Some ''Gorilla_gorilla'', ?third)]"
  let ?merged = "[\<lparr>cells = [(''centroid'', Some ''r1''), (''species'', Some ''Homo sapiens'')],
            abundance = Some ?third\<rparr>,
           \<lparr>cells = [(''centroid'', Some ''r2''), (''species'', Some ''Pan troglodytes'')],
            abundance = Some ?third\<rparr>,
           \<lparr>cells = [(''centroid'', Some ''r3''), (''species'', Some ''Gorilla gorilla'')],
            abundance = Some ?third\<rparr>]"
  have run: "compute_abundances ?df = Inr (?table, ?merged)" by code_simp
  have ne: "rows ?df \<noteq> []" by simp
  have sp: "\<forall>r \<in> set (rows ?df). get r ''species'' \<noteq> None" by (simp add: get_def)
  have "\<bar>sum_list (map snd ?table) - 1\<bar> \<le> 1 / 10 ^ 9"
    using abundance_fractions_sum_to_one[OF run ne sp] by (rule conjunct1)
  with run show ?thesis by (rule conjI)
qed

text \<open>
  Claim C1 as stated fails for the sample without hits: \<^verbatim>\<open>classified_full.tsv\<close> is the
  header alone, no row lacks a species, and the fractions sum to 0.
\<close>

theorem empty_sample_fractions_sum_to_zero:
  "map_sum id (\<lambda>out. (with_abundance out, sum_list (map snd (abundance_table out))))
     (process_sample [''taxid'' @ TAB # ''species'', ''9606'' @ TAB # ''Homo sapiens''] [])
   = Inr ([], 0)"
  by code_simp

text \<open>
  Claim C2, as amended: the abundance of a normalized species name is the number of rows
  with that name divided, in float64, by the number of rows that carry a species; rows
  without a species are in neither the groups nor the denominator. Every row gets the abundance
  of its normalized species name, a row without a species none.
\<close>

theorem abundance_is_share_of_rows_with_species:
  assumes "compute_abundances df = Inr (table, merged)"
  shows "map_of table k =
           (if k \<in> set (map (\<lambda>r. str_replace (get r ''species'')) (rows df)) \<and> k \<noteq> None
            then Some (true_divide
                        (count_list (map (\<lambda>r. str_replace (get r ''species'')) (rows df)) k)
                        (length (filter (\<lambda>c. c \<noteq> None)
                           (map (\<lambda>r. str_replace (get r ''species'')) (rows df)))))
            else None)
       \<and> map abundance merged = map (\<lambda>r. map_of table (str_replace (get r ''species''))) (rows df)"
proof -
  have "map abundance merged = map (\<lambda>r. map_of table (str_replace (get r ''species''))) (rows df)"
    using compute_abundances_Inr(2)[OF assms] by (simp add: comp_def merge_row_abundance)
  then show ?thesis
    unfolding compute_abundances_Inr(1)[OF assms] by (simp only: abundance_lookup simp_thms)
qed

theorem abundance_is_share_of_rows_with_species_witness:
  "map_of [(Some ''Homo_sapiens'', 1 :: rat)] (Some ''Homo_sapiens'') = Some (true_divide 1 1)
   \<and> compute_abundances
     \<lparr>columns = [''centroid'', ''species''],
      rows = [[(''centroid'', Some ''r1''), (''species'', Some ''Homo sapiens'')],
              [(''centroid'', Some ''r2''), (''species'', None)]]\<rparr>
   = Inr ([(Some ''Homo_sapiens'', 1)],
          [\<lparr>cells = [(''centroid'', Some ''r1''), (''species'', Some ''Homo sapiens'')],
            abundance = Some 1\<rparr>,
           \<lparr>cells = [(''centroid'', Some ''r2''), (''species'', None)], abundance = None\<rparr>])"
proof -
  let ?df = "\<lparr>columns = [''centroid'', ''species''],
      rows = [[(''centroid'', Some ''r1''), (''species'', Some ''Homo sapiens'')],
              [(''centroid'', Some ''r2''), (''species'', None)]]\<rparr>"
  let ?table = "[(Some ''Homo_sapiens'', 1 :: rat)]"
  let ?merged = "[\<lparr>cells = [(''centroid'', Some ''r1''), (''species'', Some ''Homo sapiens'')],
            abundance = Some (1 :: rat)\<rparr>,
           \<lparr>cells = [(''centroid'', Some ''r2''), (''species'', None)], abundance = None\<rparr>]"
  have run: "compute_abundances ?df = Inr (?table, ?merged)" by code_simp
  have "map_of ?table (Some ''Homo_sapiens'') = Some (true_divide 1 1)"
    using abundance_is_share_of_rows_with_species[OF run, of "Some ''Homo_sapiens''"]
    by (simp add: get_def str_replace_def)
  with run show ?thesis by blast
qed

text \<open>
  Claim C2 as stated fails when a row has no species. With the taxonomy columns
  \<^verbatim>\<open>taxid\<close>, \<^verbatim>\<open>genus\<close>, \<^verbatim>\<open>species\<close>, one hit on a known taxon and one on an unknown taxon
  give two rows, the second without a species; the abundance of \<^verbatim>\<open>Homo_sapiens\<close> is
  1 (one row of the one row with a species), not 1/2 (one row of two).
\<close>

theorem null_species_row_not_in_denominator:
  "map_sum id (\<lambda>out. (map (\<lambda>r. get (cells r) ''species'') (with_abundance out),
                        map abundance (with_abundance out), abundance_table out))
     (process_sample
        [''taxid'' @ TAB # ''genus'' @ TAB # ''species'',
         ''9606'' @ TAB # ''Homo'' @ TAB # ''Homo sapiens'']
        [''read1'' @ TAB # ''9606:a'' @ TAB # ''0.99'', ''read2'' @ TAB # ''7:b'' @ TAB # ''0.95''])
   = Inr ([Some ''Homo sapiens'', None], [Some 1, None], [(Some ''Homo_sapiens'', 1)])"
  by code_simp

text \<open>
  Claim C9: two rows of a table whose species have the same normalized form get the same
  abundance, whatever their exact species strings.
\<close>

theorem same_normalized_species_same_abundance:
  assumes "compute_abundances df = Inr (table, merged)"
    and "i < length (rows df)" and "j < length (rows df)"
    and "str_replace (get (rows df ! i) ''species'') = str_replace (get (rows df ! j) ''species'')"
  shows "abundance (merged ! i) = abundance (merged ! j)"
  using assms(2-4) unfolding compute_abundances_Inr(2)[OF assms(1)]
  by (simp add: merge_row_abundance)

theorem same_normalized_species_same_abundance_witness:
  "abundance
     ([\<lparr>cells = [(''species'', Some ''Homo sapiens'')], abundance = Some (3 / 4 :: rat)\<rparr>,
       \<lparr>cells = [(''species'', Some ''Homo_sapiens'')], abundance = Some (3 / 4)\<rparr>,
       \<lparr>cells = [(''species'', Some ''Homo sapiens'')], abundance = Some (3 / 4)\<rparr>,
       \<lparr>cells = [(''species'', Some ''Pan troglodytes'')], abundance = Some (1 / 4)\<rparr>] ! 0)
   = abundance
     ([\<lparr>cells = [(''species'', Some ''Homo sapiens'')], abundance = Some (3 / 4 :: rat)\<rparr>,
       \<lparr>cells = [(''species'', Some ''Homo_sapiens'')], abundance = Some (3 / 4)\<rparr>,
       \<lparr>cells = [(''species'', Some ''Homo sapiens'')], abundance = Some (3 / 4)\<rparr>,
       \<lparr>cells = [(''species'', Some ''Pan troglodytes'')], abundance = Some (1 / 4)\<rparr>] ! 1)
   \<and> compute_abundances
       \<lparr>columns = [''species''],
        rows = [[(''species'', Some ''Homo sapiens'')], [(''species'', Some ''Homo_sapiens'')],
                [(''species'', Some ''Homo sapiens'')], [(''species'', Some ''Pan troglodytes'')]]\<rparr>
     = Inr ([(Some ''Homo_sapiens'', 3 / 4), (Some ''Pan_troglodytes'', 1 / 4)],
            [\<lparr>cells = [(''species'', Some ''Homo sapiens'')], abundance = Some (3 / 4)\<rparr>,
             \<lparr>cells = [(''species'', Some ''Homo_sapiens'')], abundance = Some (3 / 4)\<rparr>,
             \<lparr>cells = [(''species'', Some ''Homo sapiens'')], abundance = Some (3 / 4)\<rparr>,
             \<lparr>cells = [(''species'', Some ''Pan troglodytes'')], abundance = Some (1 / 4)\<rparr>])"
proof -
  let ?df = "\<lparr>columns = [''species''],
        rows = [[(''species'', Some ''Homo sapiens'')], [(''species'', Some ''Homo_sapiens'')],
                [(''species'', Some ''Homo sapiens'')], [(''species'', Some ''Pan troglodytes'')]]\<rparr>"
  let ?merged = "[\<lparr>cells = [(''species'', Some ''Homo sapiens'')], abundance = Some (3 / 4 :: rat)\<rparr>,
       \<lparr>cells = [(''species'', Some ''Homo_sapiens'')], abundance = Some (3 / 4)\<rparr>,
       \<lparr>cells = [(''species'', Some ''Homo sapiens'')], abundance = Some (3 / 4)\<rparr>,
       \<lparr>cells = [(''species'', Some ''Pan troglodytes'')], abundance = Some (1 / 4)\<rparr>]"
  have run: "compute_abundances ?df
      = Inr ([(Some ''Homo_sapiens'', 3 / 4), (Some ''Pan_troglodytes'', 1 / 4)], ?merged)"
    by code_simp
  have i: "0 < length (rows ?df)" and j: "1 < length (rows ?df)" by simp_all
  have same: "str_replace (get (rows ?df ! 0) ''species'') = str_replace (get (rows ?df ! 1) ''species'')"
    by (simp add: get_def str_replace_def)
  from same_normalized_species_same_abundance[OF run i j same] run show ?thesis by (rule conjI)
qed

section \<open>The claims about deduplication\<close>

lemma process_table_Inr:
  assumes "process_table df = Inr out"
  obtains table merged where "compute_abundances df = Inr (table, merged)"
    and "abundance_table out = table" and "with_abundance out = merged"
    and "df_clean out = drop_duplicates merged"
  using assms by (auto simp: process_table_def split: sum.splits)

lemma drop_duplicates_merged:
  "drop_duplicates (map (merge_row table) rs)
     = map (merge_row table) (keep_first (\<lambda>r. get r ''species'') [] rs)"
  by (simp add: drop_duplicates_def keep_first_map merge_row_species)

text \<open>
  Claim C5: the deduplication keeps rows in their original order, keeps for every value
  of the species column (the exact string as stored, not its normalized form) the first
  row with that value and no later one, so the species values of the result are distinct.
\<close>

theorem drop_duplicates_keeps_first_row_per_species:
  "subseq (drop_duplicates rs) rs
   \<and> distinct (map (\<lambda>r. get (cells r) ''species'') (drop_duplicates rs))
   \<and> find (\<lambda>r. get (cells r) ''species'' = s) (drop_duplicates rs)
       = find (\<lambda>r. get (cells r) ''species'' = s) rs
   \<and> filter (\<lambda>r. get (cells r) ''species'' = s) (drop_duplicates rs)
       = take 1 (filter (\<lambda>r. get (cells r) ''species'' = s) rs)"
  unfolding drop_duplicates_def
  using keep_first_subseq[of "\<lambda>r. get (cells r) ''species''" "[]" rs]
    keep_first_distinct[of "\<lambda>r. get (cells r) ''species''" "[]" rs]
    keep_first_find[of s "[]" "\<lambda>r. get (cells r) ''species''" rs]
    keep_first_filter_key[of "\<lambda>r. get (cells r) ''species''" s "[]" rs]
  by simp

theorem drop_duplicates_keeps_first_row_per_species_witness:
  "drop_duplicates
     [\<lparr>cells = [(''centroid'', Some ''r1''), (''species'', Some ''Homo sapiens'')], abundance = Some (3 / 4)\<rparr>,
      \<lparr>cells = [(''centroid'', Some ''r2''), (''species'', Some ''Pan troglodytes'')], abundance = Some (1 / 4)\<rparr>,
      \<lparr>cells = [(''centroid'', Some ''r3''), (''species'', Some ''Homo sapiens'')], abundance = Some (3 / 4)\<rparr>,
      \<lparr>cells = [(''centroid'', Some ''r4''), (''species'', Some ''Homo_sapiens'')], abundance = Some (3 / 4)\<rparr>]
   = [\<lparr>cells = [(''centroid'', Some ''r1''), (''species'', Some ''Homo sapiens'')], abundance = Some (3 / 4)\<rparr>,
      \<lparr>cells = [(''centroid'', Some ''r2''), (''species'', Some ''Pan troglodytes'')], abundance = Some (1 / 4)\<rparr>,
      \<lparr>cells = [(''centroid'', Some ''r4''), (''species'', Some ''Homo_sapiens'')], abundance = Some (3 / 4)\<rparr>]
   \<and> distinct (map (\<lambda>r. get (cells r) ''species'')
       (drop_duplicates
         [\<lparr>cells = [(''centroid'', Some ''r1''), (''species'', Some ''Homo sapiens'')], abundance = Some (3 / 4)\<rparr>,
          \<lparr>cells = [(''centroid'', Some ''r2''), (''species'', Some ''Pan troglodytes'')], abundance = Some (1 / 4)\<rparr>,
          \<lparr>cells = [(''centroid'', Some ''r3''), (''species'', Some ''Homo sapiens'')], abundance = Some (3 / 4)\<rparr>,
          \<lparr>cells = [(''centroid'', Some ''r4''), (''species'', Some ''Homo_sapiens'')], abundance = Some (3 / 4)\<rparr>]))"
proof -
  let ?rs = "[\<lparr>cells = [(''centroid'', Some ''r1''), (''species'', Some ''Homo sapiens'')], abundance = Some (3 / 4 :: rat)\<rparr>,
      \<lparr>cells = [(''centroid'', Some ''r2''), (''species'', Some ''Pan troglodytes'')], abundance = Some (1 / 4)\<rparr>,
      \<lparr>cells = [(''centroid'', Some ''r3''), (''species'', Some ''Homo sapiens'')], abundance = Some (3 / 4)\<rparr>,
      \<lparr>cells = [(''centroid'', Some ''r4''), (''species'', Some ''Homo_sapiens'')], abundance = Some (3 / 4)\<rparr>]"
  have run: "drop_duplicates ?rs = [?rs ! 0, ?rs ! 1, ?rs ! 3]" by code_simp
  have "distinct (map (\<lambda>r. get (cells r) ''species'') (drop_duplicates ?rs))"
    using drop_duplicates_keeps_first_row_per_species[of ?rs None] by (rule conjunct2[THEN conjunct1])
  with run show ?thesis by simp
qed

lemma awk_main_unknown:
  assumes "tax v (takeWhile (\<lambda>c. c \<noteq> CHR '':'') (target_id hit)) = None"
  shows "split_at TAB (awk_main v hit)
       = [awk_field (awk_split TAB hit) 1, awk_field (awk_split TAB hit) 3,
          takeWhile (\<lambda>c. c \<noteq> CHR '':'') (target_id hit), ''UNKNOWN'']"
proof -
  let ?fs = "awk_split TAB hit"
  let ?tid = "takeWhile (\<lambda>c. c \<noteq> CHR '':'') (target_id hit)"
  have tid: "awk_field (awk_split (CHR '':'') (awk_field ?fs 2)) 1 = ?tid"
    by (simp add: awk_field_first target_id_def)
  have f1: "TAB \<notin> set (awk_field ?fs 1)" and f3: "TAB \<notin> set (awk_field ?fs 3)"
    by (rule awk_field_no_sep)+
  have notab: "TAB \<notin> set ?tid"
    using awk_field_no_sep[of TAB hit 2] by (auto simp: target_id_def dest: set_takeWhileD)
  have "awk_main v hit = awk_print [awk_field ?fs 1, awk_field ?fs 3, ?tid, ''UNKNOWN'']"
    using assms tid by (simp add: awk_main_def Let_def)
  then show ?thesis
    using f1 f3 notab by (simp add: split_at_append split_at_plain)
qed

lemma awk_main_known:
  assumes "tax v (takeWhile (\<lambda>c. c \<noteq> CHR '':'') (target_id hit)) = Some row"
  shows "split_at TAB (awk_main v hit)
       = awk_field (awk_split TAB hit) 1 # awk_field (awk_split TAB hit) 3 # split_at TAB row"
proof -
  let ?fs = "awk_split TAB hit"
  have tid: "awk_field (awk_split (CHR '':'') (awk_field ?fs 2)) 1
      = takeWhile (\<lambda>c. c \<noteq> CHR '':'') (target_id hit)"
    by (simp add: awk_field_first target_id_def)
  have f1: "TAB \<notin> set (awk_field ?fs 1)" and f3: "TAB \<notin> set (awk_field ?fs 3)"
    by (rule awk_field_no_sep)+
  have "awk_main v hit = awk_print [awk_field ?fs 1, awk_field ?fs 3, row]"
    using assms tid by (simp add: awk_main_def Let_def)
  then show ?thesis
    using f1 f3 by (simp add: split_at_append)
qed

text \<open>A record with fewer fields than a column's position has no cell in that column.\<close>

lemma parse_row_short:
  assumes "name \<notin> set (take (length (split_at TAB line)) names)"
  shows "get (parse_row names width line) name = None"
proof (cases "map_of (parse_row names width line) name")
  case None
  then show ?thesis by (simp add: get_def)
next
  case (Some c)
  let ?fs = "map parse_cell (split_at TAB line)"
  let ?d = "width - length names"
  let ?cs = "drop ?d (pad width ?fs)"
  from Some have "(name, c) \<in> set (zip names ?cs)"
    by (auto simp: parse_row_def dest: map_of_SomeD)
  then obtain i where i: "names ! i = name" "?cs ! i = c" "i < length names" "i < length ?cs"
    by (auto simp: in_set_zip)
  have "length ?fs \<le> i"
  proof (rule ccontr)
    assume "\<not> length ?fs \<le> i"
    then have "i < length (take (length (split_at TAB line)) names)"
      using i(3) by simp
    then have "take (length (split_at TAB line)) names ! i \<in> set (take (length (split_at TAB line)) names)"
      by (rule nth_mem)
    then show False using assms i(1) \<open>\<not> length ?fs \<le> i\<close> by simp
  qed
  moreover have "?d + i < length (pad width ?fs)"
    using i(4) by simp
  ultimately have "pad width ?fs ! (?d + i) = None"
    by (simp add: pad_def nth_append)
  then have "c = None"
    using i(2) i(4) by simp
  with Some show ?thesis by (simp add: get_def)
qed

lemma value_counts_normalize_skip_missing:
  "value_counts_normalize (xs @ None # ys) = value_counts_normalize (xs @ ys)"
  by (simp add: value_counts_normalize_def value_counts_def)

text \<open>
  Claim C10, as amended: after the deduplication at most one row without a species is
  left, the first such row of the input; every later row without a species is dropped,
  whatever its other cells (such as its taxon identifier) are. An unknown-branch row is
  such a row when \<^verbatim>\<open>species\<close> is not among the first four column names of the table.
\<close>

theorem drop_duplicates_keeps_one_row_without_species:
  "length (filter (\<lambda>r. get (cells r) ''species'' = None) (drop_duplicates rs)) \<le> 1
   \<and> filter (\<lambda>r. get (cells r) ''species'' = None) (drop_duplicates rs)
       = take 1 (filter (\<lambda>r. get (cells r) ''species'' = None) rs)
   \<and> (tax v (takeWhile (\<lambda>c. c \<noteq> CHR '':'') (target_id hit)) = None \<longrightarrow>
       ''species'' \<notin> set (take 4 names) \<longrightarrow>
         get (cells (merge_row table (parse_row names width (awk_main v hit)))) ''species'' = None)"
proof -
  have "get (cells (merge_row table (parse_row names width (awk_main v hit)))) ''species'' = None"
    if miss: "tax v (takeWhile (\<lambda>c. c \<noteq> CHR '':'') (target_id hit)) = None"
      and names: "''species'' \<notin> set (take 4 names)"
  proof -
    have "length (split_at TAB (awk_main v hit)) = 4"
      by (simp add: awk_main_unknown[OF miss])
    then have "get (parse_row names width (awk_main v hit)) ''species'' = None"
      using names by (intro parse_row_short) simp
    then show ?thesis by (simp add: merge_row_species)
  qed
  then show ?thesis
    unfolding drop_duplicates_def by (simp add: keep_first_filter_key)
qed

theorem drop_duplicates_keeps_one_row_without_species_witness:
  "filter (\<lambda>r. get (cells r) ''species'' = None)
     (drop_duplicates
       [\<lparr>cells = [(''taxid'', Some ''7''), (''genus'', Some ''UNKNOWN''), (''species'', None)], abundance = None\<rparr>,
        \<lparr>cells = [(''taxid'', Some ''9606''), (''genus'', Some ''Homo''), (''species'', Some ''Homo sapiens'')], abundance = Some 1\<rparr>,
        \<lparr>cells = [(''taxid'', Some ''8''), (''genus'', Some ''UNKNOWN''), (''species'', None)], abundance = None\<rparr>])
   = [\<lparr>cells = [(''taxid'', Some ''7''), (''genus'', Some ''UNKNOWN''), (''species'', None)], abundance = None\<rparr>]"
proof -
  let ?rs = "[\<lparr>cells = [(''taxid'', Some ''7''), (''genus'', Some ''UNKNOWN''), (''species'', None)], abundance = None :: rat option\<rparr>,
        \<lparr>cells = [(''taxid'', Some ''9606''), (''genus'', Some ''Homo''), (''species'', Some ''Homo sapiens'')], abundance = Some 1\<rparr>,
        \<lparr>cells = [(''taxid'', Some ''8''), (''genus'', Some ''UNKNOWN''), (''species'', None)], abundance = None\<rparr>]"
  have "filter (\<lambda>r. get (cells r) ''species'' = None) (drop_duplicates ?rs)
       = take 1 (filter (\<lambda>r. get (cells r) ''species'' = None) ?rs)"
    using drop_duplicates_keeps_one_row_without_species[of ?rs]
    by (rule conjunct2[THEN conjunct1])
  also have "\<dots> = [?rs ! 0]" by (simp add: get_def)
  finally show ?thesis by simp
qed

text \<open>
  Claim C10 as stated fails when the unknown-branch rows do have a species value. With
  the taxonomy columns \<^verbatim>\<open>species\<close>, \<^verbatim>\<open>genus\<close> the taxon identifier of the unknown row
  stands in the species column, and three hits on the unknown taxa \<^verbatim>\<open>X1\<close>, \<^verbatim>\<open>X2\<close>, \<^verbatim>\<open>X3\<close>
  leave three rows after the deduplication.
\<close>

theorem unknown_rows_with_species_all_kept:
  "map_sum id (\<lambda>out. map (\<lambda>r. (get (cells r) ''centroid'', get (cells r) ''species'',
                                   get (cells r) ''genus'')) (df_clean out))
     (process_sample
        [''species'' @ TAB # ''genus'', ''Homo sapiens'' @ TAB # ''Homo'']
        [''read1'' @ TAB # ''X1:a'' @ TAB # ''0.99'', ''read2'' @ TAB # ''X2:b'' @ TAB # ''0.95'',
         ''read3'' @ TAB # ''X3:c'' @ TAB # ''0.97''])
   = Inr [(Some ''read1'', Some ''X1'', Some ''UNKNOWN''),
          (Some ''read2'', Some ''X2'', Some ''UNKNOWN''),
          (Some ''read3'', Some ''X3'', Some ''UNKNOWN'')]"
  by code_simp

text \<open>
  Claim C8: the normalized species name is the key of the abundance table only. The
  species column of the table with abundances is the species column as read, cell by
  cell, the species column of the deduplicated table holds its distinct values in the
  order of first appearance, and every other column that was read is unchanged as well;
  the keys of the abundance table are the normalized names.
\<close>

theorem species_column_stored_verbatim:
  assumes "process_table df = Inr out"
  shows "map (\<lambda>r. get (cells r) ''species'') (with_abundance out)
           = map (\<lambda>r. get r ''species'') (rows df)
       \<and> map (\<lambda>r. get (cells r) ''species'') (df_clean out)
           = unique (map (\<lambda>r. get r ''species'') (rows df))
       \<and> set (map fst (abundance_table out))
           = set (map (\<lambda>r. str_replace (get r ''species'')) (rows df)) - {None}
       \<and> (\<forall>name. name \<noteq> ''species_norm'' \<longrightarrow>
             map (\<lambda>r. get (cells r) name) (with_abundance out) = map (\<lambda>r. get r name) (rows df))"
proof -
  from assms obtain table merged where run: "compute_abundances df = Inr (table, merged)"
    and out: "abundance_table out = table" "with_abundance out = merged"
      "df_clean out = drop_duplicates merged"
    by (rule process_table_Inr)
  note table = compute_abundances_Inr(1)[OF run]
  note merged = compute_abundances_Inr(2)[OF run]
  have cols: "map (\<lambda>r. get (cells r) name) (with_abundance out) = map (\<lambda>r. get r name) (rows df)"
    if "name \<noteq> ''species_norm''" for name
    using that by (simp add: out merged comp_def merge_row_cells)
  have clean: "map (\<lambda>r. get (cells r) ''species'') (df_clean out)
      = unique (map (\<lambda>r. get r ''species'') (rows df))"
    by (simp add: out merged drop_duplicates_merged comp_def merge_row_species unique_def
        keep_first_map)
  have keys: "set (map fst (abundance_table out))
      = set (map (\<lambda>r. str_replace (get r ''species'')) (rows df)) - {None}"
    unfolding out table by (rule abundance_keys_set)
  show ?thesis using cols[of "''species''"] clean keys cols by simp
qed

theorem species_column_stored_verbatim_witness:
  "map (\<lambda>r. get (cells r) ''species'')
     (df_clean
        \<lparr>abundance_table = [(Some ''Homo_sapiens'', 1)],
         with_abundance =
           [\<lparr>cells = [(''centroid'', Some ''r1''), (''species'', Some ''Homo sapiens'')], abundance = Some 1\<rparr>,
            \<lparr>cells = [(''centroid'', Some ''r2''), (''species'', Some ''Homo sapiens'')], abundance = Some 1\<rparr>],
         df_clean =
           [\<lparr>cells = [(''centroid'', Some ''r1''), (''species'', Some ''Homo sapiens'')], abundance = Some 1\<rparr>]\<rparr>)
   = unique [Some ''Homo sapiens'', Some ''Homo sapiens'']
   \<and> process_table
       \<lparr>columns = [''centroid'', ''species''],
        rows = [[(''centroid'', Some ''r1''), (''species'', Some ''Homo sapiens'')],
                [(''centroid'', Some ''r2''), (''species'', Some ''Homo sapiens'')]]\<rparr>
     = Inr \<lparr>abundance_table = [(Some ''Homo_sapiens'', 1)],
         with_abundance =
           [\<lparr>cells = [(''centroid'', Some ''r1''), (''species'', Some ''Homo sapiens'')], abundance = Some 1\<rparr>,
            \<lparr>cells = [(''centroid'', Some ''r2''), (''species'', Some ''Homo sapiens'')], abundance = Some 1\<rparr>],
         df_clean =
           [\<lparr>cells = [(''centroid'', Some ''r1''), (''species'', Some ''Homo sapiens'')], abundance = Some 1\<rparr>]\<rparr>"
proof -
  let ?df = "\<lparr>columns = [''centroid'', ''species''],
        rows = [[(''centroid'', Some ''r1''), (''species'', Some ''Homo sapiens'')],
                [(''centroid'', Some ''r2''), (''species'', Some ''Homo sapiens'')]]\<rparr>"
  let ?out = "\<lparr>abundance_table = [(Some ''Homo_sapiens'', 1 :: rat)],
         with_abundance =
           [\<lparr>cells = [(''centroid'', Some ''r1''), (''species'', Some ''Homo sapiens'')], abundance = Some (1 :: rat)\<rparr>,
            \<lparr>cells = [(''centroid'', Some ''r2''), (''species'', Some ''Homo sapiens'')], abundance = Some 1\<rparr>],
         df_clean =
           [\<lparr>cells = [(''centroid'', Some ''r1''), (''species'', Some ''Homo sapiens'')], abundance = Some (1 :: rat)\<rparr>]\<rparr>"
  have run: "process_table ?df = Inr ?out" by code_simp
  have "map (\<lambda>r. get (cells r) ''species'') (df_clean ?out)
      = unique (map (\<lambda>r. get r ''species'') (rows ?df))"
    using species_column_stored_verbatim[OF run] by (rule conjunct2[THEN conjunct1])
  then have "map (\<lambda>r. get (cells r) ''species'') (df_clean ?out)
      = unique [Some ''Homo sapiens'', Some ''Homo sapiens'']"
    by (simp add: get_def)
  from this run show ?thesis by (rule conjI)
qed






section \<open>The claim about the unknown branch\<close>

text \<open>
  Claim C7, as amended: for a hit whose taxon identifier is not in the taxonomy lookup the
  join prints the four columns query id, identity, taxon identifier and \<^verbatim>\<open>UNKNOWN\<close>. A
  known-branch row has two columns more than its taxonomy record, so the unknown row has
  fewer columns exactly when that record has more than two fields. When \<^verbatim>\<open>species\<close> is
  not among the first four column names of the table, the unknown row has no species, and
  leaving it out of the table changes no entry of the abundance table.
\<close>

theorem unknown_branch_row:
  assumes "tax v (takeWhile (\<lambda>c. c \<noteq> CHR '':'') (target_id hit)) = None"
  shows "split_at TAB (awk_main v hit)
           = [awk_field (awk_split TAB hit) 1, awk_field (awk_split TAB hit) 3,
              takeWhile (\<lambda>c. c \<noteq> CHR '':'') (target_id hit), ''UNKNOWN'']
       \<and> (\<forall>known row. tax v (takeWhile (\<lambda>c. c \<noteq> CHR '':'') (target_id known)) = Some row \<longrightarrow>
             (length (split_at TAB (awk_main v hit)) < length (split_at TAB (awk_main v known)))
               = (2 < length (split_at TAB row)))
       \<and> (''species'' \<notin> set (take 4 names) \<longrightarrow>
             get (parse_row names width (awk_main v hit)) ''species'' = None
             \<and> (\<forall>before after.
                   value_counts_normalize (map (\<lambda>r. str_replace (get r ''species''))
                       (before @ parse_row names width (awk_main v hit) # after))
                   = value_counts_normalize (map (\<lambda>r. str_replace (get r ''species''))
                       (before @ after))))"
proof -
  note unknown = awk_main_unknown[OF assms]
  have len: "length (split_at TAB (awk_main v hit)) = 4"
    by (simp add: unknown)
  have known: "(length (split_at TAB (awk_main v hit)) < length (split_at TAB (awk_main v k)))
      = (2 < length (split_at TAB row))"
    if "tax v (takeWhile (\<lambda>c. c \<noteq> CHR '':'') (target_id k)) = Some row" for k row
    using awk_main_known[OF that] len by auto
  have species: "get (parse_row names width (awk_main v hit)) ''species'' = None"
    if "''species'' \<notin> set (take 4 names)"
    using that by (intro parse_row_short) (simp add: len)
  have table: "value_counts_normalize (map (\<lambda>r. str_replace (get r ''species''))
        (before @ parse_row names width (awk_main v hit) # after))
      = value_counts_normalize (map (\<lambda>r. str_replace (get r ''species'')) (before @ after))"
    if "''species'' \<notin> set (take 4 names)" for before after
    using species[OF that] by (simp add: str_replace_def value_counts_normalize_skip_missing)
  show ?thesis using unknown known species table by blast
qed

theorem unknown_branch_row_witness:
  "split_at TAB
     (awk_main
        (awk_begin awk_start
           [''taxid'' @ TAB # ''genus'' @ TAB # ''species'',
            ''9606'' @ TAB # ''Homo'' @ TAB # ''Homo sapiens''])
        (''read2'' @ TAB # ''7:b'' @ TAB # ''0.95''))
   = [''read2'', ''0.95'', ''7'', ''UNKNOWN'']
   \<and> get (parse_row [''centroid'', ''identity'', ''taxid'', ''genus'', ''species''] 5
        (awk_main
           (awk_begin awk_start
              [''taxid'' @ TAB # ''genus'' @ TAB # ''species'',
               ''9606'' @ TAB # ''Homo'' @ TAB # ''Homo sapiens''])
           (''read2'' @ TAB # ''7:b'' @ TAB # ''0.95''))) ''species'' = None"
proof -
  let ?v = "awk_begin awk_start
           [''taxid'' @ TAB # ''genus'' @ TAB # ''species'',
            ''9606'' @ TAB # ''Homo'' @ TAB # ''Homo sapiens'']"
  let ?hit = "''read2'' @ TAB # ''7:b'' @ TAB # ''0.95''"
  let ?names = "[''centroid'', ''identity'', ''taxid'', ''genus'', ''species'']"
  have tid: "takeWhile (\<lambda>c. c \<noteq> CHR '':'') (target_id ?hit) = ''7''"
    by (simp add: target_id_def awk_field_def awk_split_def)
  have miss: "tax ?v (takeWhile (\<lambda>c. c \<noteq> CHR '':'') (target_id ?hit)) = None"
    unfolding tid by (simp add: awk_start_def awk_field_def awk_split_def)
  have names: "''species'' \<notin> set (take 4 ?names)" by simp
  have fields: "awk_field (awk_split TAB ?hit) 1 = ''read2''" "awk_field (awk_split TAB ?hit) 3 = ''0.95''"
    by (simp_all add: awk_field_def awk_split_def)
  from unknown_branch_row[OF miss, of ?names 5] names
  show ?thesis unfolding tid fields by blast
qed

text \<open>
  Claim C7 as stated fails for a taxonomy table with the two columns \<^verbatim>\<open>taxid\<close> and
  \<^verbatim>\<open>species\<close>: the unknown row has as many columns as the known row, four, its marker
  \<^verbatim>\<open>UNKNOWN\<close> stands in the species column, and the row is counted as a species of that
  name, which halves the abundance of \<^verbatim>\<open>Homo_sapiens\<close>.
\<close>

theorem unknown_row_counted_as_species:
  "map (\<lambda>l. length (split_at TAB l))
     (awk_program
        [''taxid'' @ TAB # ''species'', ''9606'' @ TAB # ''Homo sapiens'']
        [''read1'' @ TAB # ''9606:a'' @ TAB # ''0.99'', ''read2'' @ TAB # ''7:b'' @ TAB # ''0.95''])
   = [4, 4]
   \<and> map_sum id (\<lambda>out. (map (\<lambda>r. get (cells r) ''species'') (with_abundance out),
                          abundance_table out))
     (process_sample
        [''taxid'' @ TAB # ''species'', ''9606'' @ TAB # ''Homo sapiens'']
        [''read1'' @ TAB # ''9606:a'' @ TAB # ''0.99'', ''read2'' @ TAB # ''7:b'' @ TAB # ''0.95''])
   = Inr ([Some ''Homo sapiens'', Some ''UNKNOWN''],
          [(Some ''Homo_sapiens'', 1 / 2), (Some ''UNKNOWN'', 1 / 2)])"
  by code_simp

end
